theory Spec2Isabelle
  imports Complex_Main "HOL-Library.Word" "HOL-Library.Log_Nat"
begin

section \<open>Go's float64: IEEE 754 binary64, round to nearest, ties to even\<close>

text \<open>
  Both quote engines compute with \<^verbatim>\<open>float64\<close>. A value is a finite real, an infinity or
  NaN. Every arithmetic operation computes the exact real result and rounds it with
  \<open>fl\<close> to the nearest binary64 value (53-bit significand, exponents \<open>-1022 .. 1023\<close>,
  gradual underflow, overflow to an infinity), ties going to the even significand.

  Two things are left out, and stated here. The sign of a zero is not represented, and a
  zero divisor is taken to be \<open>+0\<close>: the divisors of the two programs that can be zero are
  a converted \<^verbatim>\<open>uint64\<close> and a sum \<open>1 + x\<close>, both \<open>+0\<close> in IEEE arithmetic, and the walk
  divides by a price only where \<open>price * size\<close> covers a positive budget, so by a price
  that is not zero. Each operation is rounded on its own, as on amd64; the Go
  specification also lets a compiler fuse \<open>x * y + z\<close> on other targets.
\<close>

datatype f64 = Fin real | PInf | NInf | NaN

text \<open>Rounding a real to the nearest integer, a tie going to the even neighbour.\<close>

definition rhe :: "real \<Rightarrow> int" where
  "rhe y = (let f = \<lfloor>y\<rfloor>; d = y - of_int f in
            if d < 1 / 2 then f else if 1 / 2 < d then f + 1
            else if even f then f else f + 1)"

text \<open>The binary exponent of a positive real: \<open>2 powi ilog2 x \<le> x < 2 powi (ilog2 x + 1)\<close>.\<close>

definition ilog2 :: "real \<Rightarrow> int" where
  "ilog2 x = (if 1 \<le> x then bitlen \<lfloor>x\<rfloor> - 1 else - bitlen (\<lceil>1 / x\<rceil> - 1))"

text \<open>The exponent binary64 gives a value: that of the value, or \<open>-1022\<close> for a subnormal.\<close>

definition expo :: "real \<Rightarrow> int" where
  "expo x = max (ilog2 \<bar>x\<bar>) (- 1022)"

definition ulp :: "real \<Rightarrow> real" where
  "ulp x = 2 powi (expo x - 52)"

definition rnd :: "real \<Rightarrow> real" where
  "rnd x = (if x = 0 then 0 else of_int (rhe (x / ulp x)) * ulp x)"

definition fl :: "real \<Rightarrow> f64" where
  "fl x = (let r = rnd x in
           if 2 ^ 1024 \<le> r then PInf else if r \<le> - (2 ^ 1024) then NInf else Fin r)"

text \<open>A \<open>Fin r\<close> is a float64 value when \<open>r\<close> is on the binary64 grid and in range.\<close>

fun is_f64 :: "f64 \<Rightarrow> bool" where
  "is_f64 (Fin r) = (rnd r = r \<and> \<bar>r\<bar> < 2 ^ 1024)"
| "is_f64 _ = True"

fun f64_neg :: "f64 \<Rightarrow> f64" where
  "f64_neg (Fin a) = Fin (- a)"
| "f64_neg PInf = NInf"
| "f64_neg NInf = PInf"
| "f64_neg NaN = NaN"

fun f64_abs :: "f64 \<Rightarrow> f64" where
  "f64_abs (Fin a) = Fin \<bar>a\<bar>"
| "f64_abs PInf = PInf"
| "f64_abs NInf = PInf"
| "f64_abs NaN = NaN"

fun f64_add :: "f64 \<Rightarrow> f64 \<Rightarrow> f64" where
  "f64_add (Fin a) (Fin b) = fl (a + b)"
| "f64_add NaN y = NaN"
| "f64_add x NaN = NaN"
| "f64_add PInf NInf = NaN"
| "f64_add NInf PInf = NaN"
| "f64_add PInf y = PInf"
| "f64_add NInf y = NInf"
| "f64_add x PInf = PInf"
| "f64_add x NInf = NInf"

definition f64_sub :: "f64 \<Rightarrow> f64 \<Rightarrow> f64" where
  "f64_sub x y = f64_add x (f64_neg y)"

fun f64_mul :: "f64 \<Rightarrow> f64 \<Rightarrow> f64" where
  "f64_mul (Fin a) (Fin b) = fl (a * b)"
| "f64_mul NaN y = NaN"
| "f64_mul x NaN = NaN"
| "f64_mul (Fin a) PInf = (if a = 0 then NaN else if 0 < a then PInf else NInf)"
| "f64_mul (Fin a) NInf = (if a = 0 then NaN else if 0 < a then NInf else PInf)"
| "f64_mul PInf (Fin b) = (if b = 0 then NaN else if 0 < b then PInf else NInf)"
| "f64_mul NInf (Fin b) = (if b = 0 then NaN else if 0 < b then NInf else PInf)"
| "f64_mul PInf PInf = PInf"
| "f64_mul PInf NInf = NInf"
| "f64_mul NInf PInf = NInf"
| "f64_mul NInf NInf = PInf"

fun f64_div :: "f64 \<Rightarrow> f64 \<Rightarrow> f64" where
  "f64_div (Fin a) (Fin b) =
     (if b = 0 then (if a = 0 then NaN else if 0 < a then PInf else NInf) else fl (a / b))"
| "f64_div NaN y = NaN"
| "f64_div x NaN = NaN"
| "f64_div (Fin a) PInf = Fin 0"
| "f64_div (Fin a) NInf = Fin 0"
| "f64_div PInf (Fin b) = (if 0 \<le> b then PInf else NInf)"
| "f64_div NInf (Fin b) = (if 0 \<le> b then NInf else PInf)"
| "f64_div PInf y = NaN"
| "f64_div NInf y = NaN"

text \<open>Comparisons: every comparison with a NaN is false.\<close>

fun f64_le :: "f64 \<Rightarrow> f64 \<Rightarrow> bool" where
  "f64_le (Fin a) (Fin b) = (a \<le> b)"
| "f64_le NaN y = False"
| "f64_le x NaN = False"
| "f64_le NInf y = True"
| "f64_le x PInf = True"
| "f64_le PInf y = False"
| "f64_le x NInf = False"

fun f64_lt :: "f64 \<Rightarrow> f64 \<Rightarrow> bool" where
  "f64_lt (Fin a) (Fin b) = (a < b)"
| "f64_lt NaN y = False"
| "f64_lt x NaN = False"
| "f64_lt PInf y = False"
| "f64_lt x NInf = False"
| "f64_lt NInf y = True"
| "f64_lt x PInf = True"

definition f64_ge :: "f64 \<Rightarrow> f64 \<Rightarrow> bool" where
  "f64_ge x y = f64_le y x"

definition f64_gt :: "f64 \<Rightarrow> f64 \<Rightarrow> bool" where
  "f64_gt x y = f64_lt y x"

text \<open>
  \<^verbatim>\<open>float64(w)\<close> of a \<^verbatim>\<open>uint64\<close> rounds to nearest. \<^verbatim>\<open>uint64(x)\<close> of a float discards
  the fraction; where the value does not fit (NaN, an infinity, a value of at least
  \<open>2 ^ 64\<close> or at most \<open>-1\<close>) Go leaves the result to the implementation, and the model
  takes it from a parameter \<open>oob\<close> that the theorems leave arbitrary.
\<close>

definition u64_to_f64 :: "64 word \<Rightarrow> f64" where
  "u64_to_f64 w = fl (real (unat w))"

definition f64_to_u64 :: "(f64 \<Rightarrow> 64 word) \<Rightarrow> f64 \<Rightarrow> 64 word" where
  "f64_to_u64 oob x =
     (case x of
        Fin r \<Rightarrow> if 0 \<le> r \<and> r < 2 ^ 64 then word_of_int \<lfloor>r\<rfloor>
                 else if - 1 < r \<and> r < 0 then 0 else oob x
      | _ \<Rightarrow> oob x)"


section \<open>Errors of the two engines\<close>

datatype error =
    ErrAfterLiquidityZero            \<comment> \<open>afterLiquidity is zero\<close>
  | ErrInputNotPositive              \<comment> \<open>input amount must be greater than zero\<close>
  | ErrQuoteUnitsNotPositive         \<comment> \<open>quote units must be greater than zero\<close>
  | ErrBaseUnitsNotPositive          \<comment> \<open>base units must be greater than zero\<close>
  | ErrNotEnoughLiquidityTrade       \<comment> \<open>not enough liquidity to fulfill the trade\<close>
  | ErrNotEnoughLiquidityRequested   \<comment> \<open>not enough liquidity for the requested amount\<close>
  | ErrNoMoreAsksOrBids              \<comment> \<open>updated ladder has no more asks or bids\<close>


section \<open>lifinity.go: the constant-product pool\<close>

text \<open>
  The private field \<^verbatim>\<open>_k\<close> is \<open>k\<close>. Both programs declare \<^verbatim>\<open>QuoteParams\<close> and \<^verbatim>\<open>Quote\<close>: the
  records of the pool are \<open>LifinityQuoteParams\<close> and \<open>LifinityQuote\<close>, those of the ladder
  \<open>PhoenixQuoteParams\<close> and \<open>PhoenixQuote\<close>, and their fields carry a prefix. A method is
  named after its receiver where the name alone would clash.
\<close>

record LifinityLiquidity =
  A :: "64 word"
  B :: "64 word"
  k :: f64

definition NewLifinityLiquidity :: "64 word \<Rightarrow> 64 word \<Rightarrow> LifinityLiquidity" where
  "NewLifinityLiquidity a b =
     \<lparr>A = a, B = b, k = f64_mul (u64_to_f64 a) (u64_to_f64 b)\<rparr>"

definition LifinityLiquidity_Price :: "LifinityLiquidity \<Rightarrow> bool \<Rightarrow> f64" where
  "LifinityLiquidity_Price l aToB =
     (if aToB then f64_div (u64_to_f64 (A l)) (u64_to_f64 (B l))
      else f64_div (u64_to_f64 (B l)) (u64_to_f64 (A l)))"

definition LifinityLiquidity_K :: "LifinityLiquidity \<Rightarrow> f64" where
  "LifinityLiquidity_K l = k l"

definition LifinityFeeRate :: "64 word" where
  "LifinityFeeRate = 50"

record LifinityQuoteParams =
  qp_InAmount :: "64 word"
  qp_AToB :: bool

record LifinityQuote =
  q_InAmount :: "64 word"
  q_OutAmount :: "64 word"
  q_PriceImpactBP :: "64 word"

text \<open>The first statement of \<^verbatim>\<open>GetQuote\<close>: the fee, in wrapping \<^verbatim>\<open>uint64\<close> arithmetic.\<close>

definition feeAmount :: "LifinityQuoteParams \<Rightarrow> 64 word" where
  "feeAmount params = qp_InAmount params * LifinityFeeRate div 10000"

text \<open>
  The two branches of \<^verbatim>\<open>GetQuote\<close>: the reserve of the input side after the trade, the
  recomputed reserve of the other side, and the output amount.
\<close>

definition afterIn :: "LifinityLiquidity \<Rightarrow> LifinityQuoteParams \<Rightarrow> 64 word" where
  "afterIn l params =
     (if qp_AToB params then A l + qp_InAmount params - feeAmount params
      else B l + qp_InAmount params - feeAmount params)"

definition afterOut ::
  "(f64 \<Rightarrow> 64 word) \<Rightarrow> LifinityLiquidity \<Rightarrow> LifinityQuoteParams \<Rightarrow> 64 word" where
  "afterOut oob l params =
     f64_to_u64 oob (f64_div (LifinityLiquidity_K l) (u64_to_f64 (afterIn l params)))"

definition outAmount ::
  "(f64 \<Rightarrow> 64 word) \<Rightarrow> LifinityLiquidity \<Rightarrow> LifinityQuoteParams \<Rightarrow> 64 word" where
  "outAmount oob l params =
     (if qp_AToB params then B l - afterOut oob l params - 1
      else A l - afterOut oob l params - 1)"

text \<open>
  \<^verbatim>\<open>GetQuote\<close> returns the quote or the error, and the pool as the call leaves it. The
  reserves are assigned before \<^verbatim>\<open>l.Price\<close> is called, as in the source. \<^verbatim>\<open>uint\<close> is taken
  to be 64 bits wide.
\<close>

definition LifinityLiquidity_GetQuote ::
  "(f64 \<Rightarrow> 64 word) \<Rightarrow> LifinityLiquidity \<Rightarrow> LifinityQuoteParams
     \<Rightarrow> (error + LifinityQuote) \<times> LifinityLiquidity" where
  "LifinityLiquidity_GetQuote oob l params =
     (let afterA = (if qp_AToB params then afterIn l params else afterOut oob l params);
          afterB = (if qp_AToB params then afterOut oob l params else afterIn l params)
      in if afterA = 0 \<or> afterB = 0 then (Inl ErrAfterLiquidityZero, l)
         else
           let l' = l\<lparr>A := afterA, B := afterB\<rparr>;
               beforePrice = LifinityLiquidity_Price l' (qp_AToB params);
               afterPrice = f64_div (u64_to_f64 afterA) (u64_to_f64 afterB);
               priceImpactBP =
                 f64_mul (f64_div (f64_abs (f64_sub afterPrice beforePrice)) beforePrice)
                   (Fin 10000)
           in (Inr \<lparr>q_InAmount = qp_InAmount params,
                     q_OutAmount = outAmount oob l params,
                     q_PriceImpactBP = f64_to_u64 oob priceImpactBP\<rparr>, l'))"


text \<open>
  None of the quotes evaluated below converts a float that does not fit; they pass this
  function for \<open>oob\<close>.
\<close>

definition oobZero :: "f64 \<Rightarrow> 64 word" where
  "oobZero x = 0"


section \<open>phoenix.go: the order-book ladder\<close>

record UiLadderLevel =
  Price :: f64
  Quantity :: f64

record UiLadder =
  Asks :: "UiLadderLevel list"
  Bids :: "UiLadderLevel list"

text \<open>Of the fields of \<^verbatim>\<open>Hoenix\<close> the quote reads \<^verbatim>\<open>Data.TakerFeeBps\<close> only.\<close>

record Hoenix =
  TakerFeeBps :: f64

definition FeeScale :: f64 where
  "FeeScale = Fin 10000"

datatype Side = Bid | Ask

record PhoenixQuoteParams =
  pp_InAmount :: f64
  pp_AToB :: bool

record PhoenixQuote =
  pq_InAmount :: f64
  pq_OutAmount :: f64

definition applyTakerFee :: "f64 \<Rightarrow> f64 \<Rightarrow> f64" where
  "applyTakerFee amount takerFeeBps =
     f64_div amount (f64_add (Fin 1) (f64_div takerFeeBps FeeScale))"

text \<open>
  The loop of \<^verbatim>\<open>calculateBaseAmountFromQuoteBudget\<close>, on the levels still to visit, the
  base amount gathered and the budget left; it returns both as the loop leaves them.
  The loop ranges over copies of the levels: it writes to no level.
\<close>

fun baseWalk :: "UiLadderLevel list \<Rightarrow> f64 \<Rightarrow> f64 \<Rightarrow> f64 \<times> f64" where
  "baseWalk [] baseAmount quoteBudget = (baseAmount, quoteBudget)"
| "baseWalk (level # asks) baseAmount quoteBudget =
     (if f64_ge (f64_mul (Price level) (Quantity level)) quoteBudget
      then (f64_add baseAmount (f64_div quoteBudget (Price level)), Fin 0)
      else
        let baseAmount' = f64_add baseAmount (Quantity level);
            quoteBudget' = f64_sub quoteBudget (f64_mul (Price level) (Quantity level))
        in if f64_le quoteBudget' (Fin 0) then (baseAmount', quoteBudget')
           else baseWalk asks baseAmount' quoteBudget')"

definition calculateBaseAmountFromQuoteBudget ::
  "UiLadderLevel list \<Rightarrow> f64 \<Rightarrow> f64 \<times> error option" where
  "calculateBaseAmountFromQuoteBudget asks quoteBudget =
     (case baseWalk asks (Fin 0) quoteBudget of
        (baseAmount, left) \<Rightarrow>
          if f64_gt left (Fin 0) then (baseAmount, Some ErrNotEnoughLiquidityTrade)
          else (baseAmount, None))"

fun quoteWalk :: "UiLadderLevel list \<Rightarrow> f64 \<Rightarrow> f64 \<Rightarrow> f64 \<times> f64" where
  "quoteWalk [] quoteAmount baseBudget = (quoteAmount, baseBudget)"
| "quoteWalk (level # bids) quoteAmount baseBudget =
     (if f64_ge (Quantity level) baseBudget
      then (f64_add quoteAmount (f64_mul baseBudget (Price level)), Fin 0)
      else
        let quoteAmount' = f64_add quoteAmount (f64_mul (Quantity level) (Price level));
            baseBudget' = f64_sub baseBudget (Quantity level)
        in if f64_le baseBudget' (Fin 0) then (quoteAmount', baseBudget')
           else quoteWalk bids quoteAmount' baseBudget')"

definition calculateQuoteAmountFromBaseBudget ::
  "UiLadderLevel list \<Rightarrow> f64 \<Rightarrow> f64 \<times> error option" where
  "calculateQuoteAmountFromBaseBudget bids baseBudget =
     (case quoteWalk bids (Fin 0) baseBudget of
        (quoteAmount, left) \<Rightarrow>
          if f64_gt left (Fin 0) then (quoteAmount, Some ErrNotEnoughLiquidityTrade)
          else (quoteAmount, None))"

definition getBaseUnitsOutFromQuoteUnitsIn ::
  "UiLadderLevel list \<Rightarrow> f64 \<Rightarrow> f64 \<times> error option" where
  "getBaseUnitsOutFromQuoteUnitsIn asks quoteUnitsIn =
     (if f64_le quoteUnitsIn (Fin 0) then (Fin 0, Some ErrQuoteUnitsNotPositive)
      else calculateBaseAmountFromQuoteBudget asks quoteUnitsIn)"

definition getQuoteUnitsOutFromBaseUnitsIn ::
  "UiLadderLevel list \<Rightarrow> f64 \<Rightarrow> f64 \<times> error option" where
  "getQuoteUnitsOutFromBaseUnitsIn bids baseUnitsIn =
     (if f64_le baseUnitsIn (Fin 0) then (Fin 0, Some ErrBaseUnitsNotPositive)
      else calculateQuoteAmountFromBaseBudget bids baseUnitsIn)"

definition getExpectedOutAmount ::
  "UiLadder \<Rightarrow> Side \<Rightarrow> f64 \<Rightarrow> f64 \<Rightarrow> f64 \<times> error option" where
  "getExpectedOutAmount uiLadder side takerFeeBps inAmount =
     (if f64_le inAmount (Fin 0) then (Fin 0, Some ErrInputNotPositive)
      else
        let adjustedAmount = applyTakerFee inAmount takerFeeBps
        in if side = Bid then getBaseUnitsOutFromQuoteUnitsIn (Asks uiLadder) adjustedAmount
           else getQuoteUnitsOutFromBaseUnitsIn (Bids uiLadder) adjustedAmount)"

text \<open>
  The loop of \<^verbatim>\<open>updateLadderLiquidity\<close>, which the source writes once for each side: it
  takes \<open>amount\<close> off the levels in order, in place, and removes no level.
\<close>

fun updateLevels :: "UiLadderLevel list \<Rightarrow> f64 \<Rightarrow> UiLadderLevel list" where
  "updateLevels [] amount = []"
| "updateLevels (level # levels) amount =
     (if f64_ge (Quantity level) amount
      then level\<lparr>Quantity := f64_sub (Quantity level) amount\<rparr> # levels
      else level\<lparr>Quantity := Fin 0\<rparr> # updateLevels levels (f64_sub amount (Quantity level)))"

definition updateLadderLiquidity :: "UiLadder \<Rightarrow> Side \<Rightarrow> f64 \<Rightarrow> UiLadder" where
  "updateLadderLiquidity ladder side amount =
     (if side = Bid then ladder\<lparr>Bids := updateLevels (Bids ladder) amount\<rparr>
      else ladder\<lparr>Asks := updateLevels (Asks ladder) amount\<rparr>)"

text \<open>
  \<^verbatim>\<open>GetQuote\<close> returns the quote or the error, and the ladder behind the caller's pointer
  as the call leaves it.
\<close>

definition Hoenix_GetQuote ::
  "Hoenix \<Rightarrow> PhoenixQuoteParams \<Rightarrow> UiLadder \<Rightarrow> (error + PhoenixQuote) \<times> UiLadder" where
  "Hoenix_GetQuote h params ladder =
     (let side = (if \<not> pp_AToB params then Ask else Bid)
      in case getExpectedOutAmount ladder side (TakerFeeBps h) (pp_InAmount params) of
           (expectedOutAmount, Some err) \<Rightarrow>
             if err = ErrNotEnoughLiquidityTrade
             then (Inl ErrNotEnoughLiquidityRequested, ladder)
             else (Inl err, ladder)
         | (expectedOutAmount, None) \<Rightarrow>
             let ladder' =
                   (if pp_AToB params then updateLadderLiquidity ladder Ask expectedOutAmount
                    else updateLadderLiquidity ladder Bid (pp_InAmount params))
             in if length (Asks ladder') = 0 \<or> length (Bids ladder') = 0
                then (Inl ErrNoMoreAsksOrBids, ladder')
                else (Inr \<lparr>pq_InAmount = pp_InAmount params,
                          pq_OutAmount = expectedOutAmount\<rparr>, ladder'))"


section \<open>What the specification says, for comparison with the code\<close>

text \<open>
  The price of the specification's price-impact metric: the ratio of the reserves in the
  direction of the trade; and the metric itself, the absolute relative change from the
  price of the pool before the trade to that of the pool after it, in basis points.
\<close>

definition specPrice :: "LifinityLiquidity \<Rightarrow> bool \<Rightarrow> real" where
  "specPrice l aToB =
     (if aToB then real (unat (A l)) / real (unat (B l))
      else real (unat (B l)) / real (unat (A l)))"

definition specPriceImpactBP :: "LifinityLiquidity \<Rightarrow> LifinityLiquidity \<Rightarrow> bool \<Rightarrow> real" where
  "specPriceImpactBP l l' aToB =
     \<bar>specPrice l' aToB - specPrice l aToB\<bar> / specPrice l aToB * 10000"

text \<open>
  The specification's effective input for an amount \<open>a\<close> and a fee of \<open>f\<close> basis points:
  \<open>a * (1 - f / 10000)\<close>, truncated.
\<close>

definition specEffectiveInput :: "nat \<Rightarrow> nat \<Rightarrow> nat" where
  "specEffectiveInput a f = a * (10000 - f) div 10000"

text \<open>The product of the two reserves, which the specification compares with \<open>k\<close>.\<close>

definition reserveProduct :: "LifinityLiquidity \<Rightarrow> nat" where
  "reserveProduct l = unat (A l) * unat (B l)"


text \<open>The ladder that \<^verbatim>\<open>main\<close> of phoenix.go builds.\<close>

definition main_ladder :: UiLadder where
  "main_ladder =
     \<lparr>Asks = [\<lparr>Price = Fin 25, Quantity = Fin 10\<rparr>,
              \<lparr>Price = Fin 30, Quantity = Fin 5\<rparr>,
              \<lparr>Price = Fin 35, Quantity = Fin 2\<rparr>],
      Bids = [\<lparr>Price = Fin 20, Quantity = Fin 10\<rparr>,
              \<lparr>Price = Fin 15, Quantity = Fin 5\<rparr>,
              \<lparr>Price = Fin 10, Quantity = Fin 2\<rparr>]\<rparr>"

text \<open>
  The budget that the walk of a quote leaves: the second component of the walk over the
  side the direction selects, started with the fee-adjusted input.
\<close>

definition walkedLeft :: "Hoenix \<Rightarrow> PhoenixQuoteParams \<Rightarrow> UiLadder \<Rightarrow> f64" where
  "walkedLeft h params ladder =
     (let budget = applyTakerFee (pp_InAmount params) (TakerFeeBps h)
      in if pp_AToB params then snd (baseWalk (Asks ladder) (Fin 0) budget)
         else snd (quoteWalk (Bids ladder) (Fin 0) budget))"

text \<open>A side with no liquidity left: every level has size zero.\<close>

definition noLiquidity :: "UiLadderLevel list \<Rightarrow> bool" where
  "noLiquidity levels = list_all (\<lambda>level. Quantity level = Fin 0) levels"





section \<open>Properties of the rounding\<close>

text \<open>
  What the proofs need of \<open>rnd\<close>: it is odd and monotone, it leaves every value of the
  binary64 grid alone (in particular every integer up to \<open>2 ^ 53\<close>), and the quotient of
  two naturals below \<open>2 ^ 53\<close> is never rounded up to the next integer.
\<close>

lemma rhe_of_int: "rhe (of_int n) = n"
  by (simp add: rhe_def)

lemma rhe_lower: "\<lfloor>y\<rfloor> \<le> rhe y"
  by (simp add: rhe_def Let_def)

lemma rhe_upper: "rhe y \<le> \<lfloor>y\<rfloor> + 1"
  by (simp add: rhe_def Let_def)

lemma rhe_mono: assumes "x \<le> y" shows "rhe x \<le> rhe y"
proof (cases "\<lfloor>x\<rfloor> = \<lfloor>y\<rfloor>")
  case True
  with assms show ?thesis
    by (auto simp: rhe_def Let_def)
next
  case False
  with assms have "\<lfloor>x\<rfloor> + 1 \<le> \<lfloor>y\<rfloor>"
    using floor_mono [of x y] by linarith
  then show ?thesis
    using rhe_upper [of x] rhe_lower [of y] by linarith
qed

lemma rhe_minus: "rhe (- y) = - rhe y"
proof (cases "y \<in> \<int>")
  case True
  then obtain n where "y = of_int n" by (auto elim: Ints_cases)
  then have "- y = of_int (- n)" by simp
  then show ?thesis
    using rhe_of_int [of "- n"] rhe_of_int [of n] \<open>y = of_int n\<close> by simp
next
  case False
  have "real_of_int \<lfloor>y\<rfloor> \<noteq> y" using False by (metis Ints_of_int)
  then have lt: "real_of_int \<lfloor>y\<rfloor> < y" using of_int_floor_le [of y] by linarith
  have fl: "\<lfloor>- y\<rfloor> = - \<lfloor>y\<rfloor> - 1"
  proof (rule floor_unique)
    have "real_of_int (- \<lfloor>y\<rfloor> - 1) = - real_of_int \<lfloor>y\<rfloor> - 1" by simp
    moreover have "y \<le> real_of_int \<lfloor>y\<rfloor> + 1" by linarith
    ultimately show "real_of_int (- \<lfloor>y\<rfloor> - 1) \<le> - y" by linarith
    show "- y < real_of_int (- \<lfloor>y\<rfloor> - 1) + 1"
      using lt by simp
  qed
  show ?thesis
    using lt by (auto simp: rhe_def Let_def fl)
qed

lemma ilog2_bounds:
  assumes "0 < x"
  shows "2 powi ilog2 x \<le> x" and "x < 2 powi (ilog2 x + 1)"
proof -
  have "2 powi ilog2 x \<le> x \<and> x < 2 powi (ilog2 x + 1)"
  proof (cases "1 \<le> x")
    case True
    define z where "z = \<lfloor>x\<rfloor>"
    have z: "0 < z" using True by (simp add: z_def)
    have b: "2 ^ nat (bitlen z - 1) \<le> z" "z < 2 ^ nat (bitlen z)"
      using bitlen_bounds [OF z] by auto
    have bl: "1 \<le> bitlen z" using z by (simp add: bitlen_alt_def)
    have e: "ilog2 x = bitlen z - 1" using True by (simp add: ilog2_def z_def)
    have "(2::real) powi (bitlen z - 1) = 2 ^ nat (bitlen z - 1)"
      using bl by (simp add: power_int_def)
    also have "\<dots> = of_int (2 ^ nat (bitlen z - 1))" by simp
    also have "\<dots> \<le> of_int z" using b(1) by (simp only: of_int_le_iff)
    also have "\<dots> \<le> x" by (simp add: z_def)
    finally have lo: "2 powi ilog2 x \<le> x" by (simp add: e)
    have "z + 1 \<le> 2 ^ nat (bitlen z)" using b(2) by simp
    then have "(of_int (z + 1) :: real) \<le> of_int (2 ^ nat (bitlen z))"
      by (simp only: of_int_le_iff)
    moreover have "x < of_int (z + 1)" by (simp add: z_def)
    moreover have "(2::real) powi (bitlen z) = of_int (2 ^ nat (bitlen z))"
      using bl by (simp add: power_int_def)
    ultimately have "x < 2 powi (ilog2 x + 1)" by (simp add: e)
    with lo show ?thesis by simp
  next
    case False
    define m where "m = \<lceil>1 / x\<rceil> - 1"
    have inv: "1 < 1 / x" using False assms by simp
    then have m: "0 < m" by (simp add: m_def less_ceiling_iff)
    have b: "2 ^ nat (bitlen m - 1) \<le> m" "m < 2 ^ nat (bitlen m)"
      using bitlen_bounds [OF m] by auto
    have bl: "1 \<le> bitlen m" using m by (simp add: bitlen_alt_def)
    have e: "ilog2 x = - bitlen m" using False by (simp add: ilog2_def m_def)
    have "1 / x \<le> of_int (m + 1)" by (simp add: m_def)
    also have "(of_int (m + 1) :: real) \<le> of_int (2 ^ nat (bitlen m))"
      using b(2) by (simp only: of_int_le_iff)
    finally have "1 / x \<le> 2 ^ nat (bitlen m)" by simp
    then have "1 / 2 ^ nat (bitlen m) \<le> x"
      using assms by (simp add: field_simps)
    moreover have "(2::real) powi (- bitlen m) = 1 / 2 ^ nat (bitlen m)"
      using bl by (simp add: power_int_def field_simps)
    ultimately have lo: "2 powi ilog2 x \<le> x" by (simp add: e)
    have "real_of_int m < 1 / x"
      using ceiling_correct [of "1 / x"] by (simp add: m_def)
    moreover have "real_of_int (2 ^ nat (bitlen m - 1)) \<le> real_of_int m"
      using b(1) by (simp only: of_int_le_iff)
    then have "(2::real) ^ nat (bitlen m - 1) \<le> real_of_int m" by simp
    ultimately have "2 ^ nat (bitlen m - 1) < 1 / x" by linarith
    then have "x < 1 / 2 ^ nat (bitlen m - 1)"
      using assms by (simp add: field_simps)
    moreover have "(2::real) powi (- bitlen m + 1) = 1 / 2 ^ nat (bitlen m - 1)"
      using bl by (simp add: power_int_def field_simps) 
    ultimately have "x < 2 powi (ilog2 x + 1)" by (simp add: e)
    with lo show ?thesis by simp
  qed
  then show "2 powi ilog2 x \<le> x" and "x < 2 powi (ilog2 x + 1)" by simp_all
qed

lemma ilog2_less: assumes "0 < x" "x < 2 powi e" shows "ilog2 x < e"
proof (rule ccontr)
  assume "\<not> ilog2 x < e"
  then have "e \<le> ilog2 x" by simp
  then have "(2::real) powi e \<le> 2 powi ilog2 x" by (rule power_int_increasing) simp
  with ilog2_bounds(1) [OF assms(1)] assms(2) show False by linarith
qed

lemma ilog2_ge: assumes "0 < x" "2 powi e \<le> x" shows "e \<le> ilog2 x"
proof (rule ccontr)
  assume "\<not> e \<le> ilog2 x"
  then have "ilog2 x + 1 \<le> e" by simp
  then have "(2::real) powi (ilog2 x + 1) \<le> 2 powi e" by (rule power_int_increasing) simp
  with ilog2_bounds(2) [OF assms(1)] assms(2) show False by linarith
qed

lemma ulp_pos: "0 < ulp x"
  by (simp add: ulp_def)

lemma expo_minus: "expo (- x) = expo x"
  by (simp add: expo_def)

lemma ulp_minus: "ulp (- x) = ulp x"
  by (simp add: ulp_def expo_minus)

lemma rnd_minus: "rnd (- x) = - rnd x"
  by (simp add: rnd_def ulp_minus rhe_minus)

lemma rnd_nonneg: assumes "0 \<le> x" shows "0 \<le> rnd x"
proof -
  have "0 \<le> x / ulp x" using assms ulp_pos [of x] by simp
  then have "0 \<le> \<lfloor>x / ulp x\<rfloor>" by simp
  then have "0 \<le> rhe (x / ulp x)" using rhe_lower [of "x / ulp x"] by linarith
  then show ?thesis using ulp_pos [of x] by (simp add: rnd_def)
qed

lemma expo_upper: assumes "x \<noteq> 0" shows "\<bar>x\<bar> < 2 powi (expo x + 1)"
proof -
  have "ilog2 \<bar>x\<bar> + 1 \<le> expo x + 1" by (simp add: expo_def)
  then have "(2::real) powi (ilog2 \<bar>x\<bar> + 1) \<le> 2 powi (expo x + 1)"
    by (rule power_int_increasing) simp
  moreover have "\<bar>x\<bar> < 2 powi (ilog2 \<bar>x\<bar> + 1)"
    using assms by (intro ilog2_bounds(2)) simp
  ultimately show ?thesis by linarith
qed

lemma expo_lower: assumes "x \<noteq> 0" "- 1022 < expo x" shows "2 powi expo x \<le> \<bar>x\<bar>"
proof -
  have "expo x = ilog2 \<bar>x\<bar>" using assms(2) by (simp add: expo_def max_def split: if_splits)
  then show ?thesis using ilog2_bounds(1) [of "\<bar>x\<bar>"] assms(1) by simp
qed

lemma expo_mono: assumes "0 < x" "x \<le> y" shows "expo x \<le> expo y"
proof -
  have "2 powi ilog2 x \<le> y" using ilog2_bounds(1) [OF assms(1)] assms(2) by linarith
  then have "ilog2 x \<le> ilog2 y" using assms by (intro ilog2_ge) auto
  then show ?thesis using assms by (simp add: expo_def)
qed

lemma rnd_grid:
  assumes "\<bar>m\<bar> < 2 ^ 53" "- 1074 \<le> j"
  shows "rnd (of_int m * 2 powi j) = of_int m * 2 powi j"
proof (cases "m = 0")
  case True
  then show ?thesis by (simp add: rnd_def)
next
  case False
  define x :: real where "x = of_int m * 2 powi j"
  have x0: "x \<noteq> 0" using False by (simp add: x_def)
  have "\<bar>x\<bar> = of_int \<bar>m\<bar> * 2 powi j" by (simp add: x_def abs_mult)
  also have "\<dots> < of_int (2 ^ 53) * 2 powi j"
  proof (rule mult_strict_right_mono)
    show "real_of_int \<bar>m\<bar> < real_of_int (2 ^ 53)"
      using assms(1) by (simp only: of_int_less_iff)
    show "(0::real) < 2 powi j" by simp
  qed
  also have "\<dots> = 2 powi (53 + j)" by (simp add: power_int_add)
  finally have "ilog2 \<bar>x\<bar> < 53 + j" using x0 by (intro ilog2_less) auto
  then have e: "expo x - 52 \<le> j" using assms(2) by (simp add: expo_def)
  define d where "d = nat (j - (expo x - 52))"
  define u where "u = ulp x"
  have u0: "0 < u" by (simp add: u_def ulp_pos)
  have "(2::real) powi j = 2 powi (int d + (expo x - 52))" using e by (simp add: d_def)
  also have "\<dots> = 2 ^ d * u" by (simp add: power_int_add ulp_def u_def)
  finally have pj: "(2::real) powi j = 2 ^ d * u" .
  have xe: "x = real_of_int (m * 2 ^ d) * u" by (simp add: x_def pj)
  then have "x / u = real_of_int (m * 2 ^ d)" using u0 by simp
  then have "rhe (x / u) = m * 2 ^ d" by (simp only: rhe_of_int)
  then have "rnd x = real_of_int (m * 2 ^ d) * u" using x0 by (simp add: rnd_def u_def)
  then have "rnd x = x" using xe by simp
  then show ?thesis by (simp add: x_def)
qed

lemma rnd_pos_mono: assumes "0 < x" "x \<le> y" shows "rnd x \<le> rnd y"
proof (cases "expo x = expo y")
  case True
  then have u: "ulp x = ulp y" by (simp add: ulp_def)
  have "x / ulp y \<le> y / ulp y" using assms(2) ulp_pos [of y] by (simp add: divide_right_mono)
  then have "rhe (x / ulp y) \<le> rhe (y / ulp y)" by (rule rhe_mono)
  then have "real_of_int (rhe (x / ulp y)) * ulp y \<le> real_of_int (rhe (y / ulp y)) * ulp y"
    using ulp_pos [of y] by (simp add: mult_right_mono)
  then show ?thesis using assms by (simp add: rnd_def u)
next
  case False
  have y0: "0 < y" using assms by simp
  have lt: "expo x + 1 \<le> expo y" using False expo_mono [OF assms] by simp
  then have "- 1022 < expo y" by (simp add: expo_def)
  then have ylo: "2 powi expo y \<le> y" using expo_lower [of y] y0 by simp
  have "(2::real) powi expo y = 2 powi (52 + (expo y - 52))" by simp
  also have "\<dots> = 2 ^ 52 * ulp y" unfolding ulp_def by (subst power_int_add) simp_all
  finally have py: "(2::real) powi expo y = 2 ^ 52 * ulp y" .
  have "real_of_int (2 ^ 52) \<le> y / ulp y"
    using ylo ulp_pos [of y] by (simp add: py field_simps)
  then have "rhe (real_of_int (2 ^ 52)) \<le> rhe (y / ulp y)" by (rule rhe_mono)
  then have "2 ^ 52 \<le> rhe (y / ulp y)" by (simp only: rhe_of_int)
  then have "real_of_int (2 ^ 52) \<le> real_of_int (rhe (y / ulp y))" by (simp only: of_int_le_iff)
  then have "real_of_int (2 ^ 52) * ulp y \<le> real_of_int (rhe (y / ulp y)) * ulp y"
    using ulp_pos [of y] by (simp only: mult_le_cancel_right_pos)
  then have ry: "2 powi expo y \<le> rnd y" using y0 by (simp add: rnd_def py)
  have "expo x + 1 = 53 + (expo x - 52)" by simp
  then have "(2::real) powi (expo x + 1) = 2 powi (53 + (expo x - 52))" by (rule arg_cong)
  also have "\<dots> = 2 ^ 53 * ulp x" unfolding ulp_def by (subst power_int_add) simp_all
  finally have px: "(2::real) powi (expo x + 1) = 2 ^ 53 * ulp x" .
  have "x < 2 powi (expo x + 1)" using expo_upper [of x] assms(1) by simp
  then have "x < 2 ^ 53 * ulp x" by (simp only: px)
  then have "x / ulp x \<le> real_of_int (2 ^ 53)"
    using ulp_pos [of x] by (simp add: field_simps)
  then have "rhe (x / ulp x) \<le> rhe (real_of_int (2 ^ 53))" by (rule rhe_mono)
  then have "rhe (x / ulp x) \<le> 2 ^ 53" by (simp only: rhe_of_int)
  then have "real_of_int (rhe (x / ulp x)) \<le> real_of_int (2 ^ 53)" by (simp only: of_int_le_iff)
  then have "real_of_int (rhe (x / ulp x)) * ulp x \<le> real_of_int (2 ^ 53) * ulp x"
    using ulp_pos [of x] by (simp only: mult_le_cancel_right_pos)
  then have rx: "rnd x \<le> 2 powi (expo x + 1)" using assms(1) by (simp add: rnd_def px)
  have "(2::real) powi (expo x + 1) \<le> 2 powi expo y" using lt by (rule power_int_increasing) simp
  with rx ry show ?thesis by linarith
qed

lemma rnd_mono: assumes "x \<le> y" shows "rnd x \<le> rnd y"
proof -
  consider "0 < x" | "x \<le> 0" "0 \<le> y" | "y < 0" by linarith
  then show ?thesis
  proof cases
    case 1
    then show ?thesis using assms by (rule rnd_pos_mono)
  next
    case 2
    have "0 \<le> rnd (- x)" using 2(1) by (intro rnd_nonneg) simp
    then have "rnd x \<le> 0" by (simp add: rnd_minus)
    moreover have "0 \<le> rnd y" using 2(2) by (rule rnd_nonneg)
    ultimately show ?thesis by linarith
  next
    case 3
    have "rnd (- y) \<le> rnd (- x)" using 3 assms by (intro rnd_pos_mono) simp_all
    then show ?thesis by (simp add: rnd_minus)
  qed
qed

lemma rnd_of_int: assumes "\<bar>n\<bar> \<le> 2 ^ 53" shows "rnd (of_int n) = of_int n"
proof -
  consider "\<bar>n\<bar> < 2 ^ 53" | "n = 2 ^ 53" | "n = - (2 ^ 53)" using assms by linarith
  then show ?thesis
  proof cases
    case 1
    then show ?thesis using rnd_grid [of n 0] by simp
  next
    case 2
    then show ?thesis using rnd_grid [of "2 ^ 52" 1] by simp
  next
    case 3
    then show ?thesis using rnd_grid [of "- (2 ^ 52)" 1] by simp
  qed
qed

lemma rnd_of_nat: assumes "n \<le> 2 ^ 53" shows "rnd (real n) = real n"
proof -
  have "\<bar>int n\<bar> \<le> 2 ^ 53" using assms by (simp add: le_nat_iff flip: of_nat_le_iff)
  then show ?thesis using rnd_of_int [of "int n"] by simp
qed

lemma fl_Fin: "\<bar>rnd x\<bar> < 2 ^ 1024 \<Longrightarrow> fl x = Fin (rnd x)"
  by (simp add: fl_def Let_def abs_less_iff)

lemma rhe_below: assumes "y < real_of_int M - 1 / 2" shows "rhe y \<le> M - 1"
proof -
  have "real_of_int \<lfloor>y\<rfloor> \<le> y" by simp
  then have f: "\<lfloor>y\<rfloor> \<le> M - 1" using assms by linarith
  show ?thesis
  proof (cases "y - real_of_int \<lfloor>y\<rfloor> < 1 / 2")
    case True
    then show ?thesis using f by (simp add: rhe_def Let_def)
  next
    case False
    then have "real_of_int \<lfloor>y\<rfloor> < real_of_int M - 1" using assms by linarith
    then have "\<lfloor>y\<rfloor> < M - 1" by linarith
    then have "\<lfloor>y\<rfloor> + 1 \<le> M - 1" by simp
    then show ?thesis using rhe_upper [of y] by linarith
  qed
qed

lemma rnd_div_bounds:
  fixes c a :: nat
  assumes "0 < a" "a < 2 ^ 53" "c < 2 ^ 53"
  shows "real (c div a) \<le> rnd (real c / real a) \<and> rnd (real c / real a) < real (c div a) + 1"
proof (cases "c mod a = 0")
  case True
  then have "c = (c div a) * a" by auto
  then have "real c = real (c div a) * real a" by (metis of_nat_mult)
  then have "real c / real a = real (c div a)" using assms(1) by simp
  moreover have "c div a \<le> 2 ^ 53" using assms(3) div_le_dividend [of c a] by linarith
  ultimately show ?thesis using rnd_of_nat [of "c div a"] by simp
next
  case False
  define n where "n = c div a"
  define r where "r = c mod a"
  define q where "q = real c / real a"
  have r: "0 < r" "r < a" using False assms(1) by (simp_all add: r_def)
  have c: "c = n * a + r" by (simp add: n_def r_def)
  have a0: "0 < real a" using assms(1) by simp
  have qa: "q * real a = real c" using a0 by (simp add: q_def)
  have "real c = real n * real a + real r" using c by (metis of_nat_add of_nat_mult)
  then have qn: "q = real n + real r / real a" using a0 by (simp add: q_def field_simps)
  have "real r \<le> real a - 1" using r(2) by linarith
  then have "real r / real a \<le> (real a - 1) / real a" using a0 by (simp add: divide_right_mono)
  also have "\<dots> = 1 - 1 / real a" using a0 by (simp add: field_simps)
  finally have qup: "q \<le> real n + 1 - 1 / real a" using qn by linarith
  have "0 < real r / real a" using r(1) a0 by simp
  then have qlo: "real n < q" using qn by linarith
  have q0: "0 < q" using qlo by linarith
  have "1 \<le> real c" using c r(1) by linarith
  then have "1 / real a \<le> q" using a0 by (simp add: q_def divide_right_mono)
  moreover have "real a < 2 ^ 53" using assms(2) by (metis of_nat_less_iff of_nat_numeral of_nat_power)
  then have "1 / 2 ^ 53 < 1 / real a" using a0 by (simp add: field_simps)
  moreover have "(2::real) powi (- 53) = 1 / 2 ^ 53" by (simp add: power_int_minus field_simps)
  ultimately have "2 powi (- 53) \<le> q" by linarith
  then have "- 53 \<le> ilog2 q" using q0 by (intro ilog2_ge)
  then have en: "- 1022 < expo q" using q0 by (simp add: expo_def)
  have creal: "real c < 2 ^ 53" using assms(3) by (metis of_nat_less_iff of_nat_numeral of_nat_power)
  have "c \<le> a * c" using assms(1) by simp
  then have "real c \<le> real (a * c)" by (simp only: of_nat_le_iff)
  then have "real c \<le> real a * real c" by simp
  then have "q \<le> real c" using a0 by (simp add: q_def field_simps)
  then have "q < 2 powi 53" using creal by simp
  then have "ilog2 q < 53" using q0 by (intro ilog2_less)
  then have e52: "expo q \<le> 52" using q0 by (simp add: expo_def)
  define u where "u = ulp q"
  define P where "P = (2::int) ^ nat (52 - expo q)"
  have u0: "0 < u" by (simp add: u_def ulp_pos)
  have Pi: "0 < P" by (simp add: P_def)
  have P0: "0 < real_of_int P" using Pi by simp
  have "(2::real) powi (52 - expo q) = 2 ^ nat (52 - expo q)" using e52 by (simp add: power_int_def)
  then have "1 / u = real_of_int P"
    by (simp add: u_def ulp_def P_def power_int_diff)
  then have uP: "u * real_of_int P = 1" using u0 by (simp add: field_simps)
  have "2 powi expo q \<le> q" using expo_lower [of q] q0 en by simp
  then have "real a * 2 powi expo q \<le> real a * q" using a0 by simp
  also have "\<dots> < 2 ^ 53" using qa creal by (simp add: mult.commute)
  finally have "real a * 2 powi expo q < 2 ^ 53" .
  moreover have "(2::real) powi expo q = 2 ^ 52 * u"
    by (simp add: u_def ulp_def power_int_diff)
  ultimately have au: "real a * u < 2" by (simp add: mult.commute)
  have Pa: "1 / 2 < real_of_int P / real a"
  proof -
    have "real a * u * real_of_int P < 2 * real_of_int P"
      using au P0 by (intro mult_strict_right_mono)
    then have "real a < 2 * real_of_int P" using uP by (simp add: mult.assoc)
    then show ?thesis using a0 by (simp add: field_simps)
  qed
  have "q * real_of_int P \<le> (real n + 1 - 1 / real a) * real_of_int P"
    using qup P0 by (intro mult_right_mono) simp_all
  also have "\<dots> = real_of_int ((int n + 1) * P) - real_of_int P / real a"
    by (simp add: algebra_simps)
  finally have "q * real_of_int P < real_of_int ((int n + 1) * P) - 1 / 2"
    using Pa by linarith
  then have hi: "rhe (q * real_of_int P) \<le> (int n + 1) * P - 1" by (rule rhe_below)
  have "real_of_int (int n * P) \<le> q * real_of_int P"
    using qlo P0 by simp
  then have "int n * P \<le> \<lfloor>q * real_of_int P\<rfloor>" by (simp only: le_floor_iff)
  then have lo: "int n * P \<le> rhe (q * real_of_int P)"
    using rhe_lower [of "q * real_of_int P"] by linarith
  have qu: "q / u = q * real_of_int P" using uP u0 by (simp add: field_simps)
  have rq: "rnd q = real_of_int (rhe (q * real_of_int P)) * u"
    using q0 by (simp add: rnd_def qu flip: u_def)
  have nPu: "real_of_int (int n * P) * u = real n"
  proof -
    have "real_of_int (int n * P) * u = real n * (u * real_of_int P)" by (simp add: algebra_simps)
    then show ?thesis by (simp only: uP mult_1_right)
  qed
  have nPu': "real_of_int ((int n + 1) * P - 1) * u = real n + 1 - u"
  proof -
    have "real_of_int ((int n + 1) * P - 1) * u = (real n + 1) * (u * real_of_int P) - u"
      by (simp add: algebra_simps)
    then show ?thesis by (simp only: uP mult_1_right)
  qed
  have "real_of_int (int n * P) * u \<le> real_of_int (rhe (q * real_of_int P)) * u"
    using lo u0 by (simp only: mult_le_cancel_right_pos of_int_le_iff)
  then have low: "real n \<le> rnd q" unfolding rq nPu by linarith
  have "real_of_int (rhe (q * real_of_int P)) * u \<le> real_of_int ((int n + 1) * P - 1) * u"
    using hi u0 by (simp only: mult_le_cancel_right_pos of_int_le_iff)
  then have "rnd q < real n + 1" using u0 unfolding rq nPu' by linarith
  with low show ?thesis by (simp add: q_def n_def)
qed

lemma rnd_div_floor:
  fixes c a :: nat
  assumes "0 < a" "a < 2 ^ 53" "c < 2 ^ 53"
  shows "\<lfloor>rnd (real c / real a)\<rfloor> = int (c div a)"
  using rnd_div_bounds [OF assms] by (intro floor_unique) simp_all


section \<open>The binary64 grid and the results of the operations\<close>

text \<open>
  Every rounded value is a multiple of \<open>2 powi (- 1074)\<close>, so the difference of two distinct
  float64 values never rounds to zero: the test \<^verbatim>\<open>quoteBudget <= 0\<close> after a level that did
  not cover the budget never stops the walk.
\<close>

lemma rnd_zero: "rnd 0 = 0"
  by (simp add: rnd_def)

lemma expo_ge: "- 1022 \<le> expo x"
  by (simp add: expo_def)

lemma ulp_grid: "\<exists>n::nat. ulp x = 2 ^ n * 2 powi (- 1074)"
proof -
  define n where "n = nat (expo x + 1022)"
  have "expo x - 52 = int n + (- 1074)" using expo_ge [of x] by (simp add: n_def)
  then have "ulp x = 2 powi (int n + (- 1074))" by (simp only: ulp_def)
  also have "\<dots> = 2 ^ n * 2 powi (- 1074)" by (subst power_int_add) simp_all
  finally show ?thesis by blast
qed

lemma rnd_on_grid: "\<exists>m::int. rnd x = real_of_int m * 2 powi (- 1074)"
proof (cases "x = 0")
  case True
  have "rnd x = real_of_int 0 * 2 powi (- 1074)" using True by (simp add: rnd_zero)
  then show ?thesis by blast
next
  case False
  obtain n :: nat where n: "ulp x = 2 ^ n * 2 powi (- 1074)" using ulp_grid by blast
  have "rnd x = real_of_int (rhe (x / ulp x)) * ulp x" using False by (simp add: rnd_def)
  also have "\<dots> = real_of_int (rhe (x / ulp x) * 2 ^ n) * 2 powi (- 1074)"
    by (simp only: n) simp
  finally show ?thesis by blast
qed

lemma grid_diff_pos:
  assumes "rnd x = x" "rnd y = y" "y < x"
  shows "0 < rnd (x - y)"
proof -
  define g :: real where "g = 2 powi (- 1074)"
  have g0: "0 < g" by (simp add: g_def)
  obtain m1 :: int where m1: "x = real_of_int m1 * g"
    using rnd_on_grid [of x] assms(1) by (auto simp: g_def)
  obtain m2 :: int where m2: "y = real_of_int m2 * g"
    using rnd_on_grid [of y] assms(2) by (auto simp: g_def)
  have "real_of_int m2 * g < real_of_int m1 * g" using assms(3) by (simp only: m1 m2)
  then have "real_of_int m2 < real_of_int m1" using g0 by (simp only: mult_less_cancel_right_pos)
  then have "m2 + 1 \<le> m1" by simp
  then have "real_of_int (m2 + 1) \<le> real_of_int m1" by (simp only: of_int_le_iff)
  then have "real_of_int (m2 + 1) * g \<le> real_of_int m1 * g"
    using g0 by (simp only: mult_le_cancel_right_pos)
  then have "g \<le> x - y" by (simp add: m1 m2 algebra_simps)
  then have "rnd g \<le> rnd (x - y)" by (rule rnd_mono)
  moreover have "rnd g = g" using rnd_grid [of 1 "- 1074"] by (simp add: g_def)
  ultimately show ?thesis using g0 by linarith
qed

lemma rnd_idem: "rnd (rnd x) = rnd x"
proof (cases "x = 0")
  case True
  then show ?thesis by (simp add: rnd_zero)
next
  case False
  define M where "M = rhe (x / ulp x)"
  have r: "rnd x = real_of_int M * 2 powi (expo x - 52)"
    using False by (simp add: rnd_def M_def ulp_def)
  have j: "- 1074 \<le> expo x - 52" using expo_ge [of x] by simp
  have "(2::real) powi (expo x + 1) = 2 powi (53 + (expo x - 52))" by (rule arg_cong) simp
  also have "\<dots> = 2 ^ 53 * ulp x" unfolding ulp_def by (subst power_int_add) simp_all
  finally have px: "(2::real) powi (expo x + 1) = 2 ^ 53 * ulp x" .
  have "\<bar>x\<bar> < 2 ^ 53 * ulp x" using expo_upper [OF False] by (simp only: px)
  then have b: "- real_of_int (2 ^ 53) \<le> x / ulp x" "x / ulp x \<le> real_of_int (2 ^ 53)"
    using ulp_pos [of x] by (simp_all add: field_simps abs_less_iff)
  have "rhe (x / ulp x) \<le> rhe (real_of_int (2 ^ 53))" using b(2) by (rule rhe_mono)
  then have hi: "M \<le> 2 ^ 53" by (simp only: rhe_of_int M_def)
  have "- real_of_int (2 ^ 53) = real_of_int (- (2 ^ 53))" by simp
  then have "real_of_int (- (2 ^ 53)) \<le> x / ulp x" using b(1) by (simp only:)
  then have "rhe (real_of_int (- (2 ^ 53))) \<le> rhe (x / ulp x)" by (rule rhe_mono)
  then have lo: "- (2 ^ 53) \<le> M" by (simp only: rhe_of_int M_def)
  have p1: "(2::real) powi (expo x - 52 + 1) = 2 powi (expo x - 52) * 2"
    by (rule power_int_add_1) simp
  consider "\<bar>M\<bar> < 2 ^ 53" | "M = 2 ^ 53" | "M = - (2 ^ 53)" using hi lo by linarith
  then show ?thesis
  proof cases
    case 1
    then show ?thesis using rnd_grid [OF 1 j] by (simp only: r)
  next
    case 2
    have "real_of_int M * 2 powi (expo x - 52) = real_of_int (2 ^ 52) * 2 powi (expo x - 52 + 1)"
      by (simp only: 2 p1) simp
    moreover have "rnd (real_of_int (2 ^ 52) * 2 powi (expo x - 52 + 1))
        = real_of_int (2 ^ 52) * 2 powi (expo x - 52 + 1)"
      using j by (intro rnd_grid) simp_all
    ultimately show ?thesis by (simp only: r)
  next
    case 3
    have "real_of_int M * 2 powi (expo x - 52)
        = real_of_int (- (2 ^ 52)) * 2 powi (expo x - 52 + 1)"
      by (simp only: 3 p1) simp
    moreover have "rnd (real_of_int (- (2 ^ 52)) * 2 powi (expo x - 52 + 1))
        = real_of_int (- (2 ^ 52)) * 2 powi (expo x - 52 + 1)"
      using j by (intro rnd_grid) simp_all
    ultimately show ?thesis by (simp only: r)
  qed
qed

lemma fl_cases:
  obtains "fl x = PInf" "0 < rnd x" | "fl x = NInf" "rnd x < 0"
  | "fl x = Fin (rnd x)" "\<bar>rnd x\<bar> < 2 ^ 1024"
proof (cases "2 ^ 1024 \<le> rnd x")
  case True
  moreover have "(0::real) < 2 ^ 1024" by simp
  ultimately show ?thesis using that(1) by (simp add: fl_def Let_def)
next
  case False
  show ?thesis
  proof (cases "rnd x \<le> - (2 ^ 1024)")
    case True
    moreover have "(0::real) < 2 ^ 1024" by simp
    ultimately show ?thesis using that(2) False by (simp add: fl_def Let_def)
  next
    case b: False
    then show ?thesis using that(3) False by (simp add: fl_def Let_def abs_less_iff)
  qed
qed

lemma is_f64_fl: "is_f64 (fl x)"
  by (rule fl_cases [of x]) (simp_all add: rnd_idem)

lemma fl_pos: assumes "0 < rnd x" shows "\<not> f64_le (fl x) (Fin 0)"
  by (rule fl_cases [of x]) (use assms in simp_all)



lemma fl_zero: "fl 0 = Fin 0"
  by (simp add: fl_def rnd_def)

lemma pow_64_1024: "(2::real) ^ 64 < 2 ^ 1024"
  by (rule power_strict_increasing) simp_all

lemma pow_53_64: "(2::real) ^ 53 + 1 < 2 ^ 64"
  by simp

lemma real_less_pow53: "(c::nat) < 2 ^ 53 \<Longrightarrow> real c < 2 ^ 53"
proof -
  assume "c < 2 ^ 53"
  then have "real c < real (2 ^ 53)" by (simp only: of_nat_less_iff)
  then show ?thesis by simp
qed

lemma fl_nat_exact:
  assumes "c < 2 ^ 53" shows "fl (real c) = Fin (real c)"
proof -
  have e: "rnd (real c) = real c" using assms by (intro rnd_of_nat) simp
  have "(2::real) ^ 53 < 2 ^ 1024" by (rule power_strict_increasing) simp_all
  then have "\<bar>real c\<bar> < 2 ^ 1024" using real_less_pow53 [OF assms] by simp
  then have "\<bar>rnd (real c)\<bar> < 2 ^ 1024" by (simp only: e)
  then have "fl (real c) = Fin (rnd (real c))" by (rule fl_Fin)
  then show ?thesis by (simp only: e)
qed

lemma fl_numeral: "numeral w < (2::nat) ^ 53 \<Longrightarrow> fl (numeral w) = Fin (numeral w)"
  using fl_nat_exact [of "numeral w"] by simp

lemma fl_one: "fl 1 = Fin 1"
  using fl_nat_exact [of 1] by simp

lemma fl_eval: assumes "rnd x = r" "\<bar>r\<bar> \<le> 2 ^ 64" shows "fl x = Fin r"
proof -
  have "\<bar>rnd x\<bar> < 2 ^ 1024" using assms pow_64_1024 by linarith
  then show ?thesis using assms(1) by (simp add: fl_Fin)
qed

lemma is_f64_numeral:
  assumes "numeral w < (2::nat) ^ 53" shows "is_f64 (Fin (numeral w))"
  using is_f64_fl [of "numeral w"] by (simp only: fl_numeral [OF assms])

lemma is_f64_mul: "is_f64 (f64_mul x y)"
  by (cases x; cases y) (simp_all add: is_f64_fl)

lemma sub_stays_positive:
  assumes "is_f64 b" "is_f64 n" "\<not> f64_ge n b"
  shows "\<not> f64_le (f64_sub b n) (Fin 0)"
proof (cases b)
  case bf: (Fin b0)
  show ?thesis
  proof (cases n)
    case nf: (Fin n0)
    have "n0 < b0" using assms(3) by (simp add: bf nf f64_ge_def)
    moreover have "rnd b0 = b0" "rnd n0 = n0" using assms(1,2) by (simp_all add: bf nf)
    ultimately have "0 < rnd (b0 - n0)" by (intro grid_diff_pos)
    then have "\<not> f64_le (fl (b0 - n0)) (Fin 0)" by (rule fl_pos)
    then show ?thesis by (simp add: bf nf f64_sub_def)
  qed (use assms(3) in \<open>simp_all add: bf f64_ge_def f64_sub_def\<close>)
qed (use assms(3) in \<open>cases n; simp add: f64_ge_def f64_sub_def\<close>)+

lemma f64_div_Fin: "b \<noteq> 0 \<Longrightarrow> f64_div (Fin a) (Fin b) = fl (a / b)"
  by simp



section \<open>The pool: conversions, the constant and the recomputed reserve\<close>

lemma real_unat_lt: "real (unat (w :: 64 word)) < 2 ^ 64"
proof -
  have "unat w < 2 ^ 64" using unsigned_less [of w] by simp
  then have "real (unat w) < real (2 ^ 64)" by (simp only: of_nat_less_iff)
  then show ?thesis by simp
qed

lemma u64_to_f64_bounds:
  "0 \<le> rnd (real (unat (w :: 64 word)))" "rnd (real (unat w)) \<le> 2 ^ 64"
proof -
  show "0 \<le> rnd (real (unat w))" by (rule rnd_nonneg) (rule of_nat_0_le_iff)
  have "real (unat w) \<le> 2 ^ 64" using real_unat_lt [of w] by (rule less_imp_le)
  then have "rnd (real (unat w)) \<le> rnd (2 ^ 64)" by (rule rnd_mono)
  also have "rnd (2 ^ 64) = 2 ^ 64" using rnd_grid [of 1 64] by simp
  finally show "rnd (real (unat w)) \<le> 2 ^ 64" .
qed

lemma u64_to_f64_Fin: "u64_to_f64 w = Fin (rnd (real (unat w)))"
proof -
  have "\<bar>rnd (real (unat w))\<bar> < 2 ^ 1024"
    using u64_to_f64_bounds [of w] pow_64_1024 by linarith
  then show ?thesis unfolding u64_to_f64_def by (rule fl_Fin)
qed

lemma u64_to_f64_ge1: assumes "w \<noteq> 0" shows "1 \<le> rnd (real (unat w))"
proof -
  have "unat w \<noteq> 0" using assms by (simp add: unat_eq_0)
  then have "1 \<le> unat w" by simp
  then have "real 1 \<le> real (unat w)" by (simp only: of_nat_le_iff)
  then have "1 \<le> real (unat w)" by (simp only: of_nat_1)
  then have "rnd 1 \<le> rnd (real (unat w))" by (rule rnd_mono)
  moreover have "rnd 1 = 1" using rnd_grid [of 1 0] by simp
  ultimately show ?thesis by (simp only:)
qed

lemma u64_to_f64_exact:
  assumes "unat w \<le> 2 ^ 53" shows "u64_to_f64 w = Fin (real (unat w))"
  using rnd_of_nat [OF assms] by (simp only: u64_to_f64_Fin)

lemma ratio_pos:
  assumes "x \<noteq> 0" "y \<noteq> 0"
  shows "\<exists>r. f64_div (u64_to_f64 x) (u64_to_f64 y) = Fin r \<and> 0 < r"
proof -
  define a where "a = rnd (real (unat x))"
  define b where "b = rnd (real (unat y))"
  have a: "1 \<le> a" "a \<le> 2 ^ 64"
    using u64_to_f64_ge1 [OF assms(1)] u64_to_f64_bounds [of x] by (simp_all only: a_def)
  have b: "1 \<le> b" "b \<le> 2 ^ 64"
    using u64_to_f64_ge1 [OF assms(2)] u64_to_f64_bounds [of y] by (simp_all only: b_def)
  have b0: "b \<noteq> 0" using b(1) by linarith
  have d: "f64_div (u64_to_f64 x) (u64_to_f64 y) = fl (a / b)"
    unfolding u64_to_f64_Fin a_def [symmetric] b_def [symmetric] using b0 by simp
  have "a / b \<le> 2 ^ 64 / 1" using a b by (intro frac_le) simp_all
  then have "a / b \<le> 2 ^ 64" by simp
  then have "rnd (a / b) \<le> rnd (2 ^ 64)" by (rule rnd_mono)
  then have hi: "rnd (a / b) \<le> 2 ^ 64" using rnd_grid [of 1 64] by simp
  have "1 / 2 ^ 64 \<le> a / b" using a b by (intro frac_le) simp_all
  then have "rnd (1 / 2 ^ 64) \<le> rnd (a / b)" by (rule rnd_mono)
  moreover have "rnd (1 / 2 ^ 64) = 1 / 2 ^ 64"
    using rnd_grid [of 1 "- 64"] by (simp add: power_int_minus field_simps)
  ultimately have lo: "1 / 2 ^ 64 \<le> rnd (a / b)" by (simp only:)
  have "(0::real) < 1 / 2 ^ 64" by simp
  then have pos: "0 < rnd (a / b)" using lo by linarith
  have "\<bar>rnd (a / b)\<bar> < 2 ^ 1024" using hi pos pow_64_1024 by linarith
  then have "fl (a / b) = Fin (rnd (a / b))" by (rule fl_Fin)
  with d pos show ?thesis by auto
qed

lemma f64_to_u64_zero: "f64_to_u64 oob (Fin 0) = 0"
  by (simp add: f64_to_u64_def)

lemma impact_same_price:
  assumes "0 < r"
  shows "f64_to_u64 oob
           (f64_mul (f64_div (f64_abs (f64_sub (Fin r) (Fin r))) (Fin r)) (Fin 10000)) = 0"
  using assms by (simp add: f64_sub_def fl_zero f64_to_u64_zero)

lemma GetQuote_Inr:
  assumes "LifinityLiquidity_GetQuote oob l params = (Inr quote, l')"
  shows "afterIn l params \<noteq> 0" "afterOut oob l params \<noteq> 0"
    and "l' = (if qp_AToB params
               then l\<lparr>A := afterIn l params, B := afterOut oob l params\<rparr>
               else l\<lparr>A := afterOut oob l params, B := afterIn l params\<rparr>)"
    and "q_OutAmount quote = outAmount oob l params"
    and "q_InAmount quote = qp_InAmount params"
  using assms
  by (auto simp: LifinityLiquidity_GetQuote_def Let_def split: if_splits)

lemma GetQuote_AToB_impact:
  assumes "qp_AToB params"
    and "LifinityLiquidity_GetQuote oob l params = (Inr quote, l')"
  shows "q_PriceImpactBP quote = 0"
proof -
  define x where "x = afterIn l params"
  define y where "y = afterOut oob l params"
  have nz: "x \<noteq> 0" "y \<noteq> 0"
    using GetQuote_Inr(1,2) [OF assms(2)] by (simp_all add: x_def y_def)
  obtain r where r: "f64_div (u64_to_f64 x) (u64_to_f64 y) = Fin r" "0 < r"
    using ratio_pos [OF nz] by auto
  have "LifinityLiquidity_GetQuote oob l params =
      (Inr \<lparr>q_InAmount = qp_InAmount params, q_OutAmount = outAmount oob l params,
            q_PriceImpactBP = 0\<rparr>, l\<lparr>A := x, B := y\<rparr>)"
    using assms(1) nz r(1) impact_same_price [OF r(2), of oob]
    by (simp add: LifinityLiquidity_GetQuote_def Let_def LifinityLiquidity_Price_def
        flip: x_def y_def)
  with assms(2) show ?thesis by auto
qed

lemma New_k:
  assumes "unat a * unat b < 2 ^ 53"
  shows "k (NewLifinityLiquidity a b) = Fin (real (unat a * unat b))"
proof -
  have kk: "k (NewLifinityLiquidity a b) = fl (rnd (real (unat a)) * rnd (real (unat b)))"
    by (simp only: NewLifinityLiquidity_def u64_to_f64_Fin f64_mul.simps LifinityLiquidity.simps)
  show ?thesis
  proof (cases "unat a = 0 \<or> unat b = 0")
    case True
    have z: "rnd (real 0) = 0" by (simp add: rnd_def)
    from True have "rnd (real (unat a)) = 0 \<or> rnd (real (unat b)) = 0"
      using z by metis
    then have "rnd (real (unat a)) * rnd (real (unat b)) = 0" by auto
    moreover have "unat a * unat b = 0" using True by auto
    then have "real (unat a * unat b) = 0" by (simp only: of_nat_0)
    ultimately show ?thesis by (simp only: kk fl_zero)
  next
    case False
    then have "unat a \<le> unat a * unat b" "unat b \<le> unat a * unat b" by simp_all
    then have ab: "unat a \<le> 2 ^ 53" "unat b \<le> 2 ^ 53" using assms by linarith+
    have "rnd (real (unat a)) * rnd (real (unat b)) = real (unat a * unat b)"
      by (simp only: rnd_of_nat [OF ab(1)] rnd_of_nat [OF ab(2)] of_nat_mult)
    then show ?thesis by (simp only: kk fl_nat_exact [OF assms])
  qed
qed

lemma afterOut_exact:
  assumes "k l = Fin (real c)" "c < 2 ^ 53"
    and "afterIn l params \<noteq> 0" "unat (afterIn l params) < 2 ^ 53"
  shows "unat (afterOut oob l params) = c div unat (afterIn l params)"
proof -
  define n where "n = unat (afterIn l params)"
  have n: "0 < n" "n < 2 ^ 53" using assms(3,4) by (simp_all add: n_def unat_gt_0)
  have "n \<le> 2 ^ 53" using n(2) by simp
  then have f: "u64_to_f64 (afterIn l params) = Fin (real n)"
    unfolding n_def by (rule u64_to_f64_exact)
  define r where "r = rnd (real c / real n)"
  have b: "real (c div n) \<le> r" "r < real (c div n) + 1"
    using rnd_div_bounds [OF n assms(2)] by (simp_all add: r_def)
  have fr: "\<lfloor>r\<rfloor> = int (c div n)" using rnd_div_floor [OF n assms(2)] by (simp add: r_def)
  have "c div n \<le> c" by simp
  then have cn: "c div n < 2 ^ 53" using assms(2) by linarith
  have cr: "real (c div n) < 2 ^ 53" using cn by (rule real_less_pow53)
  have "0 \<le> real (c div n)" by (rule of_nat_0_le_iff)
  then have r0: "0 \<le> r" using b(1) by linarith
  have r64: "r < 2 ^ 64" using b(2) cr pow_53_64 by linarith
  have "\<bar>r\<bar> < 2 ^ 1024" using r0 r64 pow_64_1024 by linarith
  then have "fl (real c / real n) = Fin r" unfolding r_def by (rule fl_Fin)
  moreover have "real n \<noteq> 0" using n(1) by simp
  ultimately have "f64_div (LifinityLiquidity_K l) (u64_to_f64 (afterIn l params)) = Fin r"
    by (simp add: LifinityLiquidity_K_def assms(1) f)
  then have "afterOut oob l params = word_of_int (int (c div n))"
    using r0 r64 fr by (simp add: afterOut_def f64_to_u64_def)
  then have "afterOut oob l params = of_nat (c div n)" by simp
  moreover have "c div n < 2 ^ LENGTH(64)"
  proof -
    have "(2::nat) ^ 53 < 2 ^ 64" by simp
    then show ?thesis using cn by simp
  qed
  ultimately have "unat (afterOut oob l params) = c div n"
    by (simp only: unat_of_nat mod_less)
  then show ?thesis by (simp only: n_def)
qed

lemma GetQuote_AToB_success:
  assumes "qp_AToB params" "afterIn l params \<noteq> 0" "afterOut oob l params \<noteq> 0"
  shows "LifinityLiquidity_GetQuote oob l params =
      (Inr \<lparr>q_InAmount = qp_InAmount params, q_OutAmount = B l - afterOut oob l params - 1,
            q_PriceImpactBP = 0\<rparr>,
       l\<lparr>A := afterIn l params, B := afterOut oob l params\<rparr>)"
proof -
  define x where "x = afterIn l params"
  define y where "y = afterOut oob l params"
  have nz: "x \<noteq> 0" "y \<noteq> 0" using assms by (simp_all add: x_def y_def)
  obtain r where r: "f64_div (u64_to_f64 x) (u64_to_f64 y) = Fin r" "0 < r"
    using ratio_pos [OF nz] by auto
  show ?thesis
    using assms(1) nz r(1) impact_same_price [OF r(2), of oob]
    by (simp add: LifinityLiquidity_GetQuote_def Let_def LifinityLiquidity_Price_def
        outAmount_def flip: x_def y_def)
qed

lemma GetQuote_success:
  assumes "afterIn l params \<noteq> 0" and "afterOut oob l params \<noteq> 0"
  shows "\<exists>bp. LifinityLiquidity_GetQuote oob l params =
        (Inr \<lparr>q_InAmount = qp_InAmount params, q_OutAmount = outAmount oob l params,
              q_PriceImpactBP = bp\<rparr>,
         if qp_AToB params then l\<lparr>A := afterIn l params, B := afterOut oob l params\<rparr>
         else l\<lparr>A := afterOut oob l params, B := afterIn l params\<rparr>)"
  using assms by (cases "qp_AToB params") (simp_all add: LifinityLiquidity_GetQuote_def Let_def)

lemma word_of_unat: "unat (w :: 64 word) = n \<Longrightarrow> w = of_nat n"
  by auto

lemma uint_sub_underflow:
  fixes x y :: "64 word"
  assumes "x \<le> y"
  shows "uint (x - y - 1) = 2 ^ 64 - 1 - (uint y - uint x)"
proof -
  have le: "uint x \<le> uint y" using assms by (simp add: word_le_def)
  have b: "0 \<le> uint x" "uint y < 2 ^ 64" using uint_lt2p [of y] by simp_all
  have "uint (x - y - 1) = (uint x - uint y - 1) mod 2 ^ 64"
    by (simp add: uint_word_ariths mod_diff_left_eq)
  also have "\<dots> = (uint x - uint y - 1 + 2 ^ 64) mod 2 ^ 64"
    by (simp only: mod_add_self2)
  also have "\<dots> = uint x - uint y - 1 + 2 ^ 64"
    using le b by (intro mod_pos_pos_trivial) linarith+
  finally show ?thesis by simp
qed

lemma fee_ceiling:
  fixes a :: nat
  shows "a - a * 50 div 10000 = (a * (10000 - 50) + 9999) div 10000"
proof -
  define d where "d = a div 200"
  have "a = 200 * d + a mod 200" unfolding d_def by simp
  moreover have "a mod 200 < 200" by simp
  ultimately have d: "200 * d \<le> a" "a < 200 * d + 200" by linarith+
  have f: "a * 50 div 10000 = d" unfolding d_def by simp
  define e where "e = a - d"
  have ae: "a = d + e" using d(1) by (simp add: e_def)
  have "(a * 9950 + 9999) div 10000 = e"
  proof (rule div_nat_eqI)
    show "10000 * e \<le> a * 9950 + 9999" using d ae by linarith
    have "a * 9950 + 9999 < 10000 * e + 10000" using d ae by linarith
    then show "a * 9950 + 9999 < 10000 * Suc e" by simp
  qed
  then have "(a * 9950 + 9999) div 10000 = a - d" by (simp only: e_def)
  then show ?thesis by (simp add: f)
qed

lemma feeAmount_unat:
  assumes "unat (qp_InAmount params) * 50 < 2 ^ 64"
  shows "unat (feeAmount params) = unat (qp_InAmount params) * 50 div 10000"
proof -
  have "unat (qp_InAmount params) * unat (50 :: 64 word) < 2 ^ LENGTH(64)"
    using assms by simp
  then have "unat (qp_InAmount params * 50) = unat (qp_InAmount params) * unat (50 :: 64 word)"
    by (simp only: unat_mult_lem)
  then show ?thesis
    by (simp add: feeAmount_def LifinityFeeRate_def unat_div)
qed

lemma feeAmount_le:
  assumes "unat (qp_InAmount params) * 50 < 2 ^ 64"
  shows "feeAmount params \<le> qp_InAmount params"
proof -
  have "unat (qp_InAmount params) * 50 div 10000 \<le> unat (qp_InAmount params)" by simp
  then show ?thesis by (simp add: word_le_nat_alt feeAmount_unat [OF assms])
qed

lemma GetQuote_AToB_eval:
  assumes "qp_AToB p" "k l = Fin (real c)" "c < 2 ^ 53"
    and "afterIn l p = x" "x \<noteq> 0" "unat x < 2 ^ 53"
    and "c div unat x = m" "(of_nat m :: 64 word) \<noteq> 0"
  shows "LifinityLiquidity_GetQuote oob l p =
      (Inr \<lparr>q_InAmount = qp_InAmount p, q_OutAmount = B l - of_nat m - 1,
            q_PriceImpactBP = 0\<rparr>, l\<lparr>A := x, B := of_nat m\<rparr>)"
proof -
  have "unat (afterOut oob l p) = c div unat (afterIn l p)"
  proof (rule afterOut_exact [OF assms(2,3)])
    show "afterIn l p \<noteq> 0" using assms(4,5) by simp
    show "unat (afterIn l p) < 2 ^ 53" using assms(4,6) by simp
  qed
  then have "unat (afterOut oob l p) = m" by (simp add: assms(4,7))
  then have ao: "afterOut oob l p = of_nat m" by (rule word_of_unat)
  have "LifinityLiquidity_GetQuote oob l p =
      (Inr \<lparr>q_InAmount = qp_InAmount p, q_OutAmount = B l - afterOut oob l p - 1,
            q_PriceImpactBP = 0\<rparr>, l\<lparr>A := afterIn l p, B := afterOut oob l p\<rparr>)"
    using assms(1) by (rule GetQuote_AToB_success) (simp_all add: assms(4,5,8) ao)
  then show ?thesis by (simp only: ao assms(4))
qed

lemma GetQuote_AToB_eval_zero:
  assumes "qp_AToB p" "k l = Fin (real c)" "c < 2 ^ 53"
    and "afterIn l p = x" "x \<noteq> 0" "unat x < 2 ^ 53"
    and "c div unat x = 0"
  shows "afterOut oob l p = 0"
    and "LifinityLiquidity_GetQuote oob l p = (Inl ErrAfterLiquidityZero, l)"
proof -
  have "unat (afterOut oob l p) = c div unat (afterIn l p)"
  proof (rule afterOut_exact [OF assms(2,3)])
    show "afterIn l p \<noteq> 0" using assms(4,5) by simp
    show "unat (afterIn l p) < 2 ^ 53" using assms(4,6) by simp
  qed
  then have "unat (afterOut oob l p) = 0" by (simp add: assms(4,7))
  then show ao: "afterOut oob l p = 0" by (simp add: unat_eq_0)
  show "LifinityLiquidity_GetQuote oob l p = (Inl ErrAfterLiquidityZero, l)"
    using assms(1) by (simp add: LifinityLiquidity_GetQuote_def ao)
qed


section \<open>The pool: quotes on small pools\<close>

lemma example_pool_k: "k (NewLifinityLiquidity 1000 20000) = Fin (real 20000000)"
proof -
  have "unat (1000 :: 64 word) * unat (20000 :: 64 word) < 2 ^ 53" by simp
  then have "k (NewLifinityLiquidity 1000 20000)
      = Fin (real (unat (1000 :: 64 word) * unat (20000 :: 64 word)))" by (rule New_k)
  then show ?thesis by simp
qed

lemma example_pool: "NewLifinityLiquidity 1000 20000 = \<lparr>A = 1000, B = 20000, k = Fin 20000000\<rparr>"
  using example_pool_k by (simp add: NewLifinityLiquidity_def)

lemma example_quote_10:
  "LifinityLiquidity_GetQuote oob (NewLifinityLiquidity 1000 20000)
       \<lparr>qp_InAmount = 10, qp_AToB = True\<rparr>
     = (Inr \<lparr>q_InAmount = 10, q_OutAmount = 198, q_PriceImpactBP = 0\<rparr>,
        \<lparr>A = 1010, B = 19801, k = Fin 20000000\<rparr>)"
proof -
  define l where "l = NewLifinityLiquidity 1000 20000"
  define p where "p = \<lparr>qp_InAmount = 10, qp_AToB = True\<rparr>"
  have ai: "afterIn l p = 1010"
    by (simp add: afterIn_def feeAmount_def LifinityFeeRate_def l_def p_def NewLifinityLiquidity_def)
  have "unat (afterOut oob l p) = 20000000 div unat (afterIn l p)"
    by (rule afterOut_exact) (simp_all add: ai, simp add: l_def example_pool_k)
  then have "unat (afterOut oob l p) = 19801" by (simp add: ai)
  then have ao: "afterOut oob l p = 19801" using word_of_unat by fastforce
  have "LifinityLiquidity_GetQuote oob l p =
      (Inr \<lparr>q_InAmount = qp_InAmount p, q_OutAmount = B l - afterOut oob l p - 1,
            q_PriceImpactBP = 0\<rparr>, l\<lparr>A := afterIn l p, B := afterOut oob l p\<rparr>)"
    by (rule GetQuote_AToB_success) (simp add: p_def, simp add: ai, simp add: ao)
  then have "LifinityLiquidity_GetQuote oob l p =
      (Inr \<lparr>q_InAmount = 10, q_OutAmount = 198, q_PriceImpactBP = 0\<rparr>,
       \<lparr>A = 1010, B = 19801, k = Fin 20000000\<rparr>)"
    by (simp add: ai ao) (simp add: l_def p_def example_pool)
  then show ?thesis by (simp only: l_def p_def)
qed

lemma example_quote_0:
  "LifinityLiquidity_GetQuote oob (NewLifinityLiquidity 1000 20000)
       \<lparr>qp_InAmount = 0, qp_AToB = True\<rparr>
     = (Inr \<lparr>q_InAmount = 0, q_OutAmount = 18446744073709551615, q_PriceImpactBP = 0\<rparr>,
        NewLifinityLiquidity 1000 20000)"
proof -
  have "LifinityLiquidity_GetQuote oob (NewLifinityLiquidity 1000 20000)
       \<lparr>qp_InAmount = 0, qp_AToB = True\<rparr>
     = (Inr \<lparr>q_InAmount = qp_InAmount \<lparr>qp_InAmount = 0, qp_AToB = True\<rparr>,
             q_OutAmount = B (NewLifinityLiquidity 1000 20000) - of_nat 20000 - 1,
             q_PriceImpactBP = 0\<rparr>,
        (NewLifinityLiquidity 1000 20000)\<lparr>A := 1000, B := of_nat 20000\<rparr>)"
    by (rule GetQuote_AToB_eval [where c = 20000000])
      (simp_all add: example_pool_k,
        simp_all add: afterIn_def feeAmount_def LifinityFeeRate_def NewLifinityLiquidity_def)
  then show ?thesis by (simp add: example_pool)
qed

lemma example_quote_big:
  "LifinityLiquidity_GetQuote oob (NewLifinityLiquidity 1000 20000)
       \<lparr>qp_InAmount = 15000000, qp_AToB = True\<rparr>
     = (Inr \<lparr>q_InAmount = 15000000, q_OutAmount = 19998, q_PriceImpactBP = 0\<rparr>,
        \<lparr>A = 14926000, B = 1, k = Fin 20000000\<rparr>)"
proof -
  have "LifinityLiquidity_GetQuote oob (NewLifinityLiquidity 1000 20000)
       \<lparr>qp_InAmount = 15000000, qp_AToB = True\<rparr>
     = (Inr \<lparr>q_InAmount = qp_InAmount \<lparr>qp_InAmount = 15000000, qp_AToB = True\<rparr>,
             q_OutAmount = B (NewLifinityLiquidity 1000 20000) - of_nat 1 - 1,
             q_PriceImpactBP = 0\<rparr>,
        (NewLifinityLiquidity 1000 20000)\<lparr>A := 14926000, B := of_nat 1\<rparr>)"
    by (rule GetQuote_AToB_eval [where c = 20000000])
      (simp_all add: example_pool_k,
        simp_all add: afterIn_def feeAmount_def LifinityFeeRate_def NewLifinityLiquidity_def)
  then show ?thesis by (simp add: example_pool)
qed

lemma example_zero_reserve:
  "LifinityLiquidity_GetQuote oob (NewLifinityLiquidity 1000 0)
       \<lparr>qp_InAmount = 5, qp_AToB = True\<rparr>
     = (Inl ErrAfterLiquidityZero, NewLifinityLiquidity 1000 0)"
  "afterOut oob (NewLifinityLiquidity 1000 0) \<lparr>qp_InAmount = 5, qp_AToB = True\<rparr> = 0"
proof -
  have kk: "k (NewLifinityLiquidity 1000 0) = Fin (real 0)"
    using New_k [of 1000 0] by simp
  show "LifinityLiquidity_GetQuote oob (NewLifinityLiquidity 1000 0)
       \<lparr>qp_InAmount = 5, qp_AToB = True\<rparr>
     = (Inl ErrAfterLiquidityZero, NewLifinityLiquidity 1000 0)"
    by (rule GetQuote_AToB_eval_zero(2) [where c = 0 and x = 1005])
      (simp_all add: kk,
        simp_all add: afterIn_def feeAmount_def LifinityFeeRate_def NewLifinityLiquidity_def)
  show "afterOut oob (NewLifinityLiquidity 1000 0) \<lparr>qp_InAmount = 5, qp_AToB = True\<rparr> = 0"
    by (rule GetQuote_AToB_eval_zero(1) [where c = 0 and x = 1005])
      (simp_all add: kk,
        simp_all add: afterIn_def feeAmount_def LifinityFeeRate_def NewLifinityLiquidity_def)
qed

lemma rnd_tie_example: "rnd 18014398509481986 = 18014398509481984"
  by code_simp

lemma example_rounding_k:
  "k (NewLifinityLiquidity 9007199254740992 1024) = Fin 9223372036854775808"
proof -
  have a: "rnd 9007199254740992 = 9007199254740992"
    using rnd_of_nat [of 9007199254740992] by simp
  have b: "rnd 1024 = 1024"
    using rnd_of_nat [of 1024] by simp
  have c: "rnd 9223372036854775808 = 9223372036854775808"
    using rnd_grid [of 1 63] by simp
  have "(9223372036854775808 :: real) = 2 ^ 63" by simp
  also have "(2::real) ^ 63 < 2 ^ 1024" by (rule power_strict_increasing) simp_all
  finally have "\<bar>rnd 9223372036854775808\<bar> < 2 ^ 1024" by (simp only: c)
  then have "fl 9223372036854775808 = Fin 9223372036854775808"
    using fl_Fin [of 9223372036854775808] by (simp only: c)
  then show ?thesis
    by (simp add: NewLifinityLiquidity_def u64_to_f64_Fin a b)
qed

lemma example_rounding:
  "LifinityLiquidity_GetQuote oob (NewLifinityLiquidity 9007199254740992 1024)
       \<lparr>qp_InAmount = 9052461562553762, qp_AToB = True\<rparr>
     = (Inr \<lparr>q_InAmount = 9052461562553762, q_OutAmount = 511, q_PriceImpactBP = 0\<rparr>,
        \<lparr>A = 18014398509481986, B = 512, k = Fin 9223372036854775808\<rparr>)"
proof -
  define l where "l = NewLifinityLiquidity 9007199254740992 1024"
  define p where "p = \<lparr>qp_InAmount = 9052461562553762, qp_AToB = True\<rparr>"
  have lrec: "l = \<lparr>A = 9007199254740992, B = 1024, k = Fin 9223372036854775808\<rparr>"
    using example_rounding_k by (simp add: l_def NewLifinityLiquidity_def)
  have ai: "afterIn l p = 18014398509481986"
    by (simp add: afterIn_def feeAmount_def LifinityFeeRate_def lrec p_def)
  have "rnd (real (unat (18014398509481986 :: 64 word))) = 18014398509481984"
    using rnd_tie_example by simp
  then have f: "u64_to_f64 (afterIn l p) = Fin 18014398509481984"
    by (simp only: ai u64_to_f64_Fin)
  have "fl (real 512) = Fin (real 512)" by (rule fl_nat_exact) simp
  moreover have "k l = Fin 9223372036854775808" by (simp add: lrec)
  ultimately have "f64_div (LifinityLiquidity_K l) (u64_to_f64 (afterIn l p)) = Fin 512"
    by (simp add: f LifinityLiquidity_K_def)
  then have ao: "afterOut oob l p = 512"
    by (simp add: afterOut_def f64_to_u64_def)
  have "LifinityLiquidity_GetQuote oob l p =
      (Inr \<lparr>q_InAmount = qp_InAmount p, q_OutAmount = B l - afterOut oob l p - 1,
            q_PriceImpactBP = 0\<rparr>, l\<lparr>A := afterIn l p, B := afterOut oob l p\<rparr>)"
    by (rule GetQuote_AToB_success) (simp add: p_def, simp add: ai, simp add: ao)
  then have "LifinityLiquidity_GetQuote oob l p =
      (Inr \<lparr>q_InAmount = 9052461562553762, q_OutAmount = 511, q_PriceImpactBP = 0\<rparr>,
        \<lparr>A = 18014398509481986, B = 512, k = Fin 9223372036854775808\<rparr>)"
    by (simp add: ai ao) (simp add: lrec p_def)
  then show ?thesis by (simp only: l_def p_def)
qed


section \<open>The claims about the pool\<close>

text \<open>
  Claim C1. The specification reports as price impact the absolute relative change from
  the price before the trade to the price after it, and a strictly positive value for the
  pool \<open>(1000, 20000)\<close> and the quote \<open>(10, A to B)\<close>. The code assigns the new
  reserves before it reads \<open>beforePrice\<close>: at that input it returns a price impact of 0,
  where the metric of the specification is above 201 basis points.
\<close>

theorem C1_scenario_reports_zero_impact:
  "LifinityLiquidity_GetQuote oob (NewLifinityLiquidity 1000 20000)
       \<lparr>qp_InAmount = 10, qp_AToB = True\<rparr>
     = (Inr \<lparr>q_InAmount = 10, q_OutAmount = 198, q_PriceImpactBP = 0\<rparr>,
        \<lparr>A = 1010, B = 19801, k = Fin 20000000\<rparr>)
   \<and> 201 < specPriceImpactBP (NewLifinityLiquidity 1000 20000)
               \<lparr>A = 1010, B = 19801, k = Fin 20000000\<rparr> True"
proof
  show "LifinityLiquidity_GetQuote oob (NewLifinityLiquidity 1000 20000)
       \<lparr>qp_InAmount = 10, qp_AToB = True\<rparr>
     = (Inr \<lparr>q_InAmount = 10, q_OutAmount = 198, q_PriceImpactBP = 0\<rparr>,
        \<lparr>A = 1010, B = 19801, k = Fin 20000000\<rparr>)"
    by (rule example_quote_10)
  show "201 < specPriceImpactBP (NewLifinityLiquidity 1000 20000)
               \<lparr>A = 1010, B = 19801, k = Fin 20000000\<rparr> True"
    by (simp add: specPriceImpactBP_def specPrice_def NewLifinityLiquidity_def)
qed

text \<open>
  Claim C4, as stated, at the quote \<open>(10, A to B)\<close> on the pool \<open>(1000, 20000)\<close>: the input
  reserve grows by 10, while \<open>10 * (1 - 50 / 10000)\<close> truncated is 9.
\<close>

theorem C4_counterexample:
  "unat (A (snd (LifinityLiquidity_GetQuote oobZero (NewLifinityLiquidity 1000 20000)
            \<lparr>qp_InAmount = 10, qp_AToB = True\<rparr>)) - A (NewLifinityLiquidity 1000 20000)) = 10
   \<and> specEffectiveInput (unat (10 :: 64 word)) (unat LifinityFeeRate) = 9"
proof -
  have "A (NewLifinityLiquidity 1000 20000) = 1000" by (simp add: NewLifinityLiquidity_def)
  then show ?thesis
    by (simp add: example_quote_10 specEffectiveInput_def LifinityFeeRate_def)
qed

text \<open>
  Claim C4, amended. For every successful quote whose amount \<open>a\<close> satisfies
  \<open>50 * a < 2 ^ 64\<close>, the input reserve grows by \<open>a\<close> minus the truncated fee
  \<open>a * 50 div 10000\<close>: the fee is rounded down, so the effective input is
  \<open>a * (10000 - 50) / 10000\<close> rounded up.
\<close>

theorem C4_effective_input:
  assumes "LifinityLiquidity_GetQuote oob l params = (Inr quote, l')"
    and "unat (qp_InAmount params) * 50 < 2 ^ 64"
  shows "(if qp_AToB params then A l' else B l')
           = (if qp_AToB params then A l else B l) + (qp_InAmount params - feeAmount params)
       \<and> unat (qp_InAmount params - feeAmount params)
           = unat (qp_InAmount params) - unat (qp_InAmount params) * 50 div 10000
       \<and> unat (qp_InAmount params - feeAmount params)
           = (unat (qp_InAmount params) * (10000 - 50) + 9999) div 10000"
proof -
  have l': "l' = (if qp_AToB params
               then l\<lparr>A := afterIn l params, B := afterOut oob l params\<rparr>
               else l\<lparr>A := afterOut oob l params, B := afterIn l params\<rparr>)"
    using assms(1) by (rule GetQuote_Inr(3))
  have 1: "(if qp_AToB params then A l' else B l')
           = (if qp_AToB params then A l else B l) + (qp_InAmount params - feeAmount params)"
    by (simp add: l' afterIn_def)
  have 2: "unat (qp_InAmount params - feeAmount params)
           = unat (qp_InAmount params) - unat (qp_InAmount params) * 50 div 10000"
    using feeAmount_le [OF assms(2)] by (simp add: unat_sub feeAmount_unat [OF assms(2)])
  have "unat (qp_InAmount params) - unat (qp_InAmount params) * 50 div 10000
      = (unat (qp_InAmount params) * (10000 - 50) + 9999) div 10000"
    by (rule fee_ceiling)
  with 1 2 show ?thesis by simp
qed

text \<open>Claim C4, amended, at the quote \<open>(10, A to B)\<close> on the pool \<open>(1000, 20000)\<close>.\<close>

theorem C4_effective_input_witness:
  "LifinityLiquidity_GetQuote oobZero (NewLifinityLiquidity 1000 20000)
       \<lparr>qp_InAmount = 10, qp_AToB = True\<rparr>
     = (Inr \<lparr>q_InAmount = 10, q_OutAmount = 198, q_PriceImpactBP = 0\<rparr>,
        \<lparr>A = 1010, B = 19801, k = Fin 20000000\<rparr>)
   \<and> unat (qp_InAmount \<lparr>qp_InAmount = 10, qp_AToB = True\<rparr>) * 50 < 2 ^ 64
   \<and> A \<lparr>A = 1010, B = 19801, k = Fin 20000000\<rparr>
       = A (NewLifinityLiquidity 1000 20000)
           + (10 - feeAmount \<lparr>qp_InAmount = 10, qp_AToB = True\<rparr>)
   \<and> unat (10 - feeAmount \<lparr>qp_InAmount = 10, qp_AToB = True\<rparr>) = 10"
proof -
  have h1: "LifinityLiquidity_GetQuote oobZero (NewLifinityLiquidity 1000 20000)
       \<lparr>qp_InAmount = 10, qp_AToB = True\<rparr>
     = (Inr \<lparr>q_InAmount = 10, q_OutAmount = 198, q_PriceImpactBP = 0\<rparr>,
        \<lparr>A = 1010, B = 19801, k = Fin 20000000\<rparr>)"
    by (rule example_quote_10)
  have h2: "unat (qp_InAmount \<lparr>qp_InAmount = 10, qp_AToB = True\<rparr>) * 50 < 2 ^ 64"
    by simp
  show ?thesis using h1 h2 C4_effective_input [OF h1 h2] by simp
qed

text \<open>
  Claim C5, as stated, at two quotes. On the pool \<open>(1000, 20000)\<close> the quote
  \<open>(15000000, A to B)\<close> leaves reserves whose product is 5074000 below \<open>k\<close>, a quarter of
  \<open>k\<close>. On the pool \<open>(2 ^ 53, 1024)\<close> a quote that brings the first reserve to
  \<open>2 ^ 54 + 2\<close>, which float64 rounds to \<open>2 ^ 54\<close>, leaves reserves whose product exceeds
  \<open>k\<close>.
\<close>

theorem C5_counterexample:
  "LifinityLiquidity_GetQuote oobZero (NewLifinityLiquidity 1000 20000)
       \<lparr>qp_InAmount = 15000000, qp_AToB = True\<rparr>
     = (Inr \<lparr>q_InAmount = 15000000, q_OutAmount = 19998, q_PriceImpactBP = 0\<rparr>,
        \<lparr>A = 14926000, B = 1, k = Fin 20000000\<rparr>)
   \<and> k (NewLifinityLiquidity 1000 20000) = Fin 20000000
   \<and> 20000000 - reserveProduct \<lparr>A = 14926000, B = 1, k = Fin 20000000\<rparr> = 5074000
   \<and> LifinityLiquidity_GetQuote oobZero (NewLifinityLiquidity 9007199254740992 1024)
       \<lparr>qp_InAmount = 9052461562553762, qp_AToB = True\<rparr>
     = (Inr \<lparr>q_InAmount = 9052461562553762, q_OutAmount = 511, q_PriceImpactBP = 0\<rparr>,
        \<lparr>A = 18014398509481986, B = 512, k = Fin 9223372036854775808\<rparr>)
   \<and> \<not> f64_le
         (Fin (real (reserveProduct
                  \<lparr>A = 18014398509481986, B = 512, k = Fin 9223372036854775808\<rparr>)))
         (k (NewLifinityLiquidity 9007199254740992 1024))"
  by (simp add: example_quote_big example_rounding example_rounding_k example_pool_k
      reserveProduct_def)

text \<open>
  Claim C5, amended. For a pool built by \<open>NewLifinityLiquidity a b\<close> with \<open>a * b < 2 ^ 53\<close>
  and a successful quote whose new input reserve is below \<open>2 ^ 53\<close> (the range in which
  float64 holds every value exactly), \<open>k\<close> is \<open>a * b\<close>, the product of the updated reserves
  is at most \<open>k\<close>, and it falls short of \<open>k\<close> by less than the updated input reserve: a
  bound that grows with the trade.
\<close>

theorem C5_product_below_k:
  assumes "unat a * unat b < 2 ^ 53"
    and "unat (afterIn (NewLifinityLiquidity a b) params) < 2 ^ 53"
    and "LifinityLiquidity_GetQuote oob (NewLifinityLiquidity a b) params = (Inr quote, l')"
  shows "k (NewLifinityLiquidity a b) = Fin (real (unat a * unat b))
       \<and> reserveProduct l' \<le> unat a * unat b
       \<and> unat a * unat b - reserveProduct l' < unat (if qp_AToB params then A l' else B l')"
proof -
  define l where "l = NewLifinityLiquidity a b"
  define c where "c = unat a * unat b"
  define n where "n = unat (afterIn l params)"
  have kk: "k l = Fin (real c)" unfolding l_def c_def using assms(1) by (rule New_k)
  have c: "c < 2 ^ 53" using assms(1) by (simp add: c_def)
  have q: "LifinityLiquidity_GetQuote oob l params = (Inr quote, l')"
    using assms(3) by (simp only: l_def)
  have nz: "afterIn l params \<noteq> 0" using q by (rule GetQuote_Inr(1))
  have n: "n < 2 ^ 53" using assms(2) by (simp add: n_def l_def)
  have ao: "unat (afterOut oob l params) = c div n"
    unfolding n_def using kk c nz n [unfolded n_def] by (rule afterOut_exact)
  have l': "l' = (if qp_AToB params
               then l\<lparr>A := afterIn l params, B := afterOut oob l params\<rparr>
               else l\<lparr>A := afterOut oob l params, B := afterIn l params\<rparr>)"
    using q by (rule GetQuote_Inr(3))
  have rp: "reserveProduct l' = n * (c div n)"
    by (simp add: l' reserveProduct_def ao flip: n_def)
  have rin: "unat (if qp_AToB params then A l' else B l') = n"
    by (simp add: l' n_def)
  have n0: "0 < n" using nz by (simp add: n_def unat_gt_0)
  have "n * (c div n) \<le> c" by simp
  moreover have "c - n * (c div n) = c mod n" by (simp add: minus_mult_div_eq_mod)
  moreover have "c mod n < n" using n0 by simp
  ultimately show ?thesis
    using kk by (simp only: rp rin flip: l_def c_def)
qed

text \<open>Claim C5, amended, at the quote \<open>(10, A to B)\<close> on the pool \<open>(1000, 20000)\<close>.\<close>

theorem C5_product_below_k_witness:
  "unat (1000 :: 64 word) * unat (20000 :: 64 word) < 2 ^ 53
   \<and> unat (afterIn (NewLifinityLiquidity 1000 20000) \<lparr>qp_InAmount = 10, qp_AToB = True\<rparr>)
       < 2 ^ 53
   \<and> LifinityLiquidity_GetQuote oobZero (NewLifinityLiquidity 1000 20000)
       \<lparr>qp_InAmount = 10, qp_AToB = True\<rparr>
     = (Inr \<lparr>q_InAmount = 10, q_OutAmount = 198, q_PriceImpactBP = 0\<rparr>,
        \<lparr>A = 1010, B = 19801, k = Fin 20000000\<rparr>)
   \<and> reserveProduct \<lparr>A = 1010, B = 19801, k = Fin 20000000\<rparr> = 19999010
   \<and> reserveProduct \<lparr>A = 1010, B = 19801, k = Fin 20000000\<rparr>
       \<le> unat (1000 :: 64 word) * unat (20000 :: 64 word)
   \<and> unat (1000 :: 64 word) * unat (20000 :: 64 word)
         - reserveProduct \<lparr>A = 1010, B = 19801, k = Fin 20000000\<rparr> < 1010"
proof -
  have h1: "unat (1000 :: 64 word) * unat (20000 :: 64 word) < 2 ^ 53" by simp
  have h2: "unat (afterIn (NewLifinityLiquidity 1000 20000)
              \<lparr>qp_InAmount = 10, qp_AToB = True\<rparr>) < 2 ^ 53"
    by (simp add: afterIn_def feeAmount_def LifinityFeeRate_def NewLifinityLiquidity_def)
  have h3: "LifinityLiquidity_GetQuote oobZero (NewLifinityLiquidity 1000 20000)
       \<lparr>qp_InAmount = 10, qp_AToB = True\<rparr>
     = (Inr \<lparr>q_InAmount = 10, q_OutAmount = 198, q_PriceImpactBP = 0\<rparr>,
        \<lparr>A = 1010, B = 19801, k = Fin 20000000\<rparr>)"
    by (rule example_quote_10)
  have "reserveProduct \<lparr>A = 1010, B = 19801, k = Fin 20000000\<rparr> = 19999010"
    by (simp add: reserveProduct_def)
  then show ?thesis using h1 h2 h3 C5_product_below_k [OF h1 h2 h3] by simp
qed

text \<open>
  Claim C10, as stated, on the pool \<open>(1000, 0)\<close>: the recomputed reserve 0 is not below
  the current reserve 0, yet the quote \<open>(5, A to B)\<close> fails and leaves the pool as it was.
\<close>

theorem C10_counterexample:
  "B (NewLifinityLiquidity 1000 0)
     \<le> afterOut oobZero (NewLifinityLiquidity 1000 0) \<lparr>qp_InAmount = 5, qp_AToB = True\<rparr>
   \<and> LifinityLiquidity_GetQuote oobZero (NewLifinityLiquidity 1000 0)
        \<lparr>qp_InAmount = 5, qp_AToB = True\<rparr>
      = (Inl ErrAfterLiquidityZero, NewLifinityLiquidity 1000 0)"
proof -
  have "B (NewLifinityLiquidity 1000 0) = 0" by (simp add: NewLifinityLiquidity_def)
  then show ?thesis by (simp add: example_zero_reserve)
qed

text \<open>
  Claim C10, amended. Whenever the recomputed reserve of the output side is at least the
  current one and both new reserves are non-zero, the call succeeds, stores the new
  reserves, and returns as output amount \<open>reserveOut - afterOut - 1\<close> wrapped around
  \<open>2 ^ 64\<close>, that is \<open>2 ^ 64 - 1 - (afterOut - reserveOut)\<close>.
\<close>

theorem C10_output_wraps:
  assumes "afterIn l params \<noteq> 0" and "afterOut oob l params \<noteq> 0"
    and "(if qp_AToB params then B l else A l) \<le> afterOut oob l params"
  shows "\<exists>quote.
      LifinityLiquidity_GetQuote oob l params =
        (Inr quote,
         if qp_AToB params then l\<lparr>A := afterIn l params, B := afterOut oob l params\<rparr>
         else l\<lparr>A := afterOut oob l params, B := afterIn l params\<rparr>)
      \<and> q_OutAmount quote = (if qp_AToB params then B l else A l) - afterOut oob l params - 1
      \<and> uint (q_OutAmount quote)
          = (uint (if qp_AToB params then B l else A l) - uint (afterOut oob l params) - 1)
              mod 2 ^ 64
      \<and> uint (q_OutAmount quote)
          = 2 ^ 64 - 1
              - (uint (afterOut oob l params) - uint (if qp_AToB params then B l else A l))"
proof -
  define ro where "ro = (if qp_AToB params then B l else A l)"
  define ao where "ao = afterOut oob l params"
  have le: "ro \<le> ao" using assms(3) by (simp only: ro_def ao_def)
  have u: "uint (ro - ao - 1) = 2 ^ 64 - 1 - (uint ao - uint ro)"
    using le by (rule uint_sub_underflow)
  have m: "uint (ro - ao - 1) = (uint ro - uint ao - 1) mod 2 ^ 64"
    by (simp add: uint_word_ariths mod_diff_left_eq)
  have out: "outAmount oob l params = ro - ao - 1"
    by (simp add: outAmount_def ro_def ao_def)
  obtain bp where "LifinityLiquidity_GetQuote oob l params =
        (Inr \<lparr>q_InAmount = qp_InAmount params, q_OutAmount = outAmount oob l params,
              q_PriceImpactBP = bp\<rparr>,
         if qp_AToB params then l\<lparr>A := afterIn l params, B := afterOut oob l params\<rparr>
         else l\<lparr>A := afterOut oob l params, B := afterIn l params\<rparr>)"
    using GetQuote_success [OF assms(1,2)] by auto
  then show ?thesis
    using u m by (simp add: out flip: ro_def ao_def)
qed

text \<open>Claim C10, amended, at the quote \<open>(0, A to B)\<close> on the pool \<open>(1000, 20000)\<close>.\<close>

theorem C10_output_wraps_witness:
  "afterIn (NewLifinityLiquidity 1000 20000) \<lparr>qp_InAmount = 0, qp_AToB = True\<rparr> \<noteq> 0
   \<and> afterOut oobZero (NewLifinityLiquidity 1000 20000)
         \<lparr>qp_InAmount = 0, qp_AToB = True\<rparr> = 20000
   \<and> B (NewLifinityLiquidity 1000 20000)
       \<le> afterOut oobZero (NewLifinityLiquidity 1000 20000)
           \<lparr>qp_InAmount = 0, qp_AToB = True\<rparr>
   \<and> LifinityLiquidity_GetQuote oobZero (NewLifinityLiquidity 1000 20000)
          \<lparr>qp_InAmount = 0, qp_AToB = True\<rparr>
        = (Inr \<lparr>q_InAmount = 0, q_OutAmount = 18446744073709551615, q_PriceImpactBP = 0\<rparr>,
           NewLifinityLiquidity 1000 20000)
   \<and> uint (18446744073709551615 :: 64 word) = 2 ^ 64 - 1 - (20000 - 20000)"
proof -
  define l where "l = NewLifinityLiquidity 1000 20000"
  define p where "p = \<lparr>qp_InAmount = 0, qp_AToB = True\<rparr>"
  have ai: "afterIn l p = 1000"
    by (simp add: afterIn_def feeAmount_def LifinityFeeRate_def l_def p_def NewLifinityLiquidity_def)
  have "unat (afterOut oobZero l p) = 20000000 div unat (afterIn l p)"
    by (rule afterOut_exact) (simp_all add: ai, simp add: l_def example_pool_k)
  then have "unat (afterOut oobZero l p) = 20000" by (simp add: ai)
  then have ao: "afterOut oobZero l p = 20000" using word_of_unat by fastforce
  have bl: "B l = 20000" by (simp add: l_def NewLifinityLiquidity_def)
  have h1: "afterIn l p \<noteq> 0" by (simp add: ai)
  have h2: "afterOut oobZero l p \<noteq> 0" by (simp add: ao)
  have pa: "qp_AToB p" by (simp add: p_def)
  have h3: "(if qp_AToB p then B l else A l) \<le> afterOut oobZero l p"
    using pa by (simp add: ao bl)
  have q: "LifinityLiquidity_GetQuote oobZero l p
        = (Inr \<lparr>q_InAmount = 0, q_OutAmount = 18446744073709551615, q_PriceImpactBP = 0\<rparr>, l)"
    unfolding l_def p_def by (rule example_quote_0)
  have "uint (18446744073709551615 :: 64 word) = 2 ^ 64 - 1 - (20000 - 20000)"
    using C10_output_wraps [OF h1 h2 h3] by (simp add: q pa ao bl)
  then show ?thesis
    using h1 h3 q ao unfolding l_def p_def by simp
qed


section \<open>The ladder: the walk and the update\<close>

lemma calculateBase_alt:
  "calculateBaseAmountFromQuoteBudget asks b =
     (fst (baseWalk asks (Fin 0) b),
      if f64_gt (snd (baseWalk asks (Fin 0) b)) (Fin 0) then Some ErrNotEnoughLiquidityTrade
      else None)"
  by (simp add: calculateBaseAmountFromQuoteBudget_def split: prod.splits)

lemma calculateQuote_alt:
  "calculateQuoteAmountFromBaseBudget bids b =
     (fst (quoteWalk bids (Fin 0) b),
      if f64_gt (snd (quoteWalk bids (Fin 0) b)) (Fin 0) then Some ErrNotEnoughLiquidityTrade
      else None)"
  by (simp add: calculateQuoteAmountFromBaseBudget_def split: prod.splits)

lemma length_updateLevels: "length (updateLevels levels amount) = length levels"
  by (induction levels arbitrary: amount) simp_all

lemma updateLadderLiquidity_lengths:
  "length (Asks (updateLadderLiquidity ladder side amount)) = length (Asks ladder)"
  "length (Bids (updateLadderLiquidity ladder side amount)) = length (Bids ladder)"
  by (simp_all add: updateLadderLiquidity_def length_updateLevels)

lemma GetQuote_walk_ok:
  assumes "getExpectedOutAmount ladder (if pp_AToB params then Bid else Ask) (TakerFeeBps h)
             (pp_InAmount params) = (out, None)"
  shows "Hoenix_GetQuote h params ladder =
      (let ladder' = (if pp_AToB params then updateLadderLiquidity ladder Ask out
                      else updateLadderLiquidity ladder Bid (pp_InAmount params))
       in if Asks ladder' = [] \<or> Bids ladder' = [] then (Inl ErrNoMoreAsksOrBids, ladder')
          else (Inr \<lparr>pq_InAmount = pp_InAmount params, pq_OutAmount = out\<rparr>, ladder'))"
  using assms by (cases "pp_AToB params") (simp_all add: Hoenix_GetQuote_def Let_def)

text \<open>
  The guard after the update looks at the number of levels only. A quote whose walk
  succeeds on a ladder with levels on both sides is returned, whatever the update leaves
  of their sizes; the error is returned when a side has no level at all.
\<close>

lemma GetQuote_both_sides_present:
  assumes "getExpectedOutAmount ladder (if pp_AToB params then Bid else Ask) (TakerFeeBps h)
             (pp_InAmount params) = (out, None)"
    and "Asks ladder \<noteq> []" and "Bids ladder \<noteq> []"
  shows "Hoenix_GetQuote h params ladder
       = (Inr \<lparr>pq_InAmount = pp_InAmount params, pq_OutAmount = out\<rparr>,
          if pp_AToB params then updateLadderLiquidity ladder Ask out
          else updateLadderLiquidity ladder Bid (pp_InAmount params))"
proof -
  define ladder' where
    "ladder' = (if pp_AToB params then updateLadderLiquidity ladder Ask out
                else updateLadderLiquidity ladder Bid (pp_InAmount params))"
  have "length (Asks ladder') = length (Asks ladder)"
    and "length (Bids ladder') = length (Bids ladder)"
    by (simp_all add: ladder'_def updateLadderLiquidity_lengths)
  with assms(2,3) have "Asks ladder' \<noteq> []" and "Bids ladder' \<noteq> []" by fastforce+
  then show ?thesis
    using GetQuote_walk_ok [OF assms(1)] by (simp add: ladder'_def Let_def)
qed

lemma GetQuote_side_without_levels:
  assumes "getExpectedOutAmount ladder (if pp_AToB params then Bid else Ask) (TakerFeeBps h)
             (pp_InAmount params) = (out, None)"
    and "Asks ladder = [] \<or> Bids ladder = []"
  shows "Hoenix_GetQuote h params ladder
       = (Inl ErrNoMoreAsksOrBids,
          if pp_AToB params then updateLadderLiquidity ladder Ask out
          else updateLadderLiquidity ladder Bid (pp_InAmount params))"
proof -
  define ladder' where
    "ladder' = (if pp_AToB params then updateLadderLiquidity ladder Ask out
                else updateLadderLiquidity ladder Bid (pp_InAmount params))"
  have "length (Asks ladder') = length (Asks ladder)"
    and "length (Bids ladder') = length (Bids ladder)"
    by (simp_all add: ladder'_def updateLadderLiquidity_lengths)
  with assms(2) have "Asks ladder' = [] \<or> Bids ladder' = []" by fastforce
  then show ?thesis
    using GetQuote_walk_ok [OF assms(1)] by (simp add: ladder'_def Let_def)
qed


lemma baseWalk_cover:
  assumes "f64_ge (f64_mul (Price level) (Quantity level)) budget"
  shows "baseWalk (level # asks) base budget
       = (f64_add base (f64_div budget (Price level)), Fin 0)"
  using assms by simp

lemma baseWalk_consume:
  assumes "is_f64 budget" "\<not> f64_ge (f64_mul (Price level) (Quantity level)) budget"
  shows "baseWalk (level # asks) base budget
       = baseWalk asks (f64_add base (Quantity level))
           (f64_sub budget (f64_mul (Price level) (Quantity level)))"
  using assms(2) sub_stays_positive [OF assms(1) is_f64_mul assms(2)]
  by (simp add: Let_def)

lemma quoteWalk_cover:
  assumes "f64_ge (Quantity level) budget"
  shows "quoteWalk (level # bids) acc budget
       = (f64_add acc (f64_mul budget (Price level)), Fin 0)"
  using assms by simp

lemma quoteWalk_consume:
  assumes "is_f64 budget" "is_f64 (Quantity level)" "\<not> f64_ge (Quantity level) budget"
  shows "quoteWalk (level # bids) acc budget
       = quoteWalk bids (f64_add acc (f64_mul (Quantity level) (Price level)))
           (f64_sub budget (Quantity level))"
  using assms(3) sub_stays_positive [OF assms(1,2,3)]
  by (simp add: Let_def)











section \<open>The ladder: quotes on small ladders\<close>


lemma applyTakerFee_zero: "applyTakerFee (Fin x) (Fin 0) = fl x"
  by (simp add: applyTakerFee_def FeeScale_def fl_zero fl_one)

lemma walk_1000:
  "baseWalk (Asks main_ladder) (Fin 0) (Fin 1000) = (Fin 17, Fin 530)"
  by (simp add: main_ladder_def f64_ge_def f64_sub_def fl_numeral fl_zero Let_def)

lemma quote_1000:
  "Hoenix_GetQuote \<lparr>TakerFeeBps = Fin 0\<rparr> \<lparr>pp_InAmount = Fin 1000, pp_AToB = True\<rparr> main_ladder
     = (Inl ErrNotEnoughLiquidityRequested, main_ladder)"
  by (simp add: Hoenix_GetQuote_def getExpectedOutAmount_def applyTakerFee_zero fl_numeral
      getBaseUnitsOutFromQuoteUnitsIn_def calculateBaseAmountFromQuoteBudget_def walk_1000
      f64_gt_def)

lemma depleted_side_quote:
  "Hoenix_GetQuote \<lparr>TakerFeeBps = Fin 0\<rparr> \<lparr>pp_InAmount = Fin 250, pp_AToB = True\<rparr>
       \<lparr>Asks = [\<lparr>Price = Fin 25, Quantity = Fin 10\<rparr>],
        Bids = [\<lparr>Price = Fin 20, Quantity = Fin 10\<rparr>]\<rparr>
     = (Inr \<lparr>pq_InAmount = Fin 250, pq_OutAmount = Fin 10\<rparr>,
        \<lparr>Asks = [\<lparr>Price = Fin 25, Quantity = Fin 0\<rparr>],
         Bids = [\<lparr>Price = Fin 20, Quantity = Fin 10\<rparr>]\<rparr>)"
  by (simp add: Hoenix_GetQuote_def getExpectedOutAmount_def applyTakerFee_zero fl_numeral
      getBaseUnitsOutFromQuoteUnitsIn_def calculateBase_alt f64_ge_def f64_gt_def f64_sub_def
      fl_zero updateLadderLiquidity_def)

lemma no_bids_walk:
  "getExpectedOutAmount \<lparr>Asks = [\<lparr>Price = Fin 25, Quantity = Fin 10\<rparr>], Bids = []\<rparr>
       Bid (Fin 0) (Fin 100) = (Fin 4, None)"
  by (simp add: getExpectedOutAmount_def applyTakerFee_zero fl_numeral
      getBaseUnitsOutFromQuoteUnitsIn_def calculateBase_alt f64_ge_def f64_gt_def fl_zero)


lemma rnd_fee: "rnd (5 / 10000) = 1152921504606847 / 2 ^ 61"
  by code_simp

lemma rnd_one_plus_fee: "rnd (1 + 1152921504606847 / 2 ^ 61) = 4505851427184181 / 2 ^ 52"
  by code_simp

lemma rnd_budget_150: "rnd (150 / (4505851427184181 / 2 ^ 52)) = 2637509152086357 / 2 ^ 44"
  by code_simp

lemma rnd_base_150: "rnd (2637509152086357 / 2 ^ 44 / 25) = 3376011714670537 / 2 ^ 49"
  by code_simp

lemma rnd_base_150_sum: "rnd (0 + 3376011714670537 / 2 ^ 49) = 3376011714670537 / 2 ^ 49"
  by code_simp

lemma rnd_left_150: "rnd (10 + - (3376011714670537 / 2 ^ 49)) = 2253487819542583 / 2 ^ 49"
  by code_simp

lemma fee_5_budget_150:
  "applyTakerFee (Fin 150) (Fin 5) = Fin (2637509152086357 / 2 ^ 44)"
proof -
  have f1: "fl (5 / 10000) = Fin (1152921504606847 / 2 ^ 61)"
    by (rule fl_eval [OF rnd_fee]) simp
  have f2: "fl (1 + 1152921504606847 / 2 ^ 61) = Fin (4505851427184181 / 2 ^ 52)"
    by (rule fl_eval [OF rnd_one_plus_fee]) simp
  have f3: "fl (150 / (4505851427184181 / 2 ^ 52)) = Fin (2637509152086357 / 2 ^ 44)"
    by (rule fl_eval [OF rnd_budget_150]) simp
  have "f64_div (Fin 5) (Fin 10000) = fl (5 / 10000)" by (rule f64_div_Fin) simp
  then have s1: "f64_div (Fin 5) FeeScale = Fin (1152921504606847 / 2 ^ 61)"
    by (simp only: FeeScale_def f1)
  have s2: "f64_add (Fin 1) (Fin (1152921504606847 / 2 ^ 61)) = Fin (4505851427184181 / 2 ^ 52)"
    by (simp only: f64_add.simps f2)
  have "f64_div (Fin 150) (Fin (4505851427184181 / 2 ^ 52))
      = fl (150 / (4505851427184181 / 2 ^ 52))" by (rule f64_div_Fin) simp
  then have s3: "f64_div (Fin 150) (Fin (4505851427184181 / 2 ^ 52))
      = Fin (2637509152086357 / 2 ^ 44)" by (simp only: f3)
  show ?thesis by (simp only: applyTakerFee_def s1 s2 s3)
qed

lemma walk_150:
  "baseWalk (Asks main_ladder) (Fin 0) (Fin (2637509152086357 / 2 ^ 44))
     = (Fin (3376011714670537 / 2 ^ 49), Fin 0)"
proof -
  have f4: "fl (2637509152086357 / 2 ^ 44 / 25) = Fin (3376011714670537 / 2 ^ 49)"
    by (rule fl_eval [OF rnd_base_150]) simp
  have f5: "fl (0 + 3376011714670537 / 2 ^ 49) = Fin (3376011714670537 / 2 ^ 49)"
    by (rule fl_eval [OF rnd_base_150_sum]) simp
  have "f64_div (Fin (2637509152086357 / 2 ^ 44)) (Fin 25)
      = fl (2637509152086357 / 2 ^ 44 / 25)" by (rule f64_div_Fin) simp
  then have s4: "f64_div (Fin (2637509152086357 / 2 ^ 44)) (Fin 25)
      = Fin (3376011714670537 / 2 ^ 49)" by (simp only: f4)
  have s5: "f64_add (Fin 0) (Fin (3376011714670537 / 2 ^ 49))
      = Fin (3376011714670537 / 2 ^ 49)" by (simp only: f64_add.simps f5)
  have c: "f64_ge (f64_mul (Price \<lparr>Price = Fin 25, Quantity = Fin 10\<rparr>)
                    (Quantity \<lparr>Price = Fin 25, Quantity = Fin 10\<rparr>))
             (Fin (2637509152086357 / 2 ^ 44))"
    by (simp add: f64_ge_def fl_numeral)
  have "baseWalk (\<lparr>Price = Fin 25, Quantity = Fin 10\<rparr>
          # [\<lparr>Price = Fin 30, Quantity = Fin 5\<rparr>, \<lparr>Price = Fin 35, Quantity = Fin 2\<rparr>])
          (Fin 0) (Fin (2637509152086357 / 2 ^ 44))
      = (f64_add (Fin 0) (f64_div (Fin (2637509152086357 / 2 ^ 44))
            (Price \<lparr>Price = Fin 25, Quantity = Fin 10\<rparr>)), Fin 0)"
    using c by (rule baseWalk_cover)
  then show ?thesis
    by (simp only: main_ladder_def UiLadder.simps UiLadderLevel.simps s4 s5)
qed

lemma update_150:
  "updateLevels (Asks main_ladder) (Fin (3376011714670537 / 2 ^ 49))
     = [\<lparr>Price = Fin 25, Quantity = Fin (2253487819542583 / 2 ^ 49)\<rparr>,
        \<lparr>Price = Fin 30, Quantity = Fin 5\<rparr>, \<lparr>Price = Fin 35, Quantity = Fin 2\<rparr>]"
proof -
  have f6: "fl (10 + - (3376011714670537 / 2 ^ 49)) = Fin (2253487819542583 / 2 ^ 49)"
    by (rule fl_eval [OF rnd_left_150]) simp
  have s6: "f64_sub (Fin 10) (Fin (3376011714670537 / 2 ^ 49))
      = Fin (2253487819542583 / 2 ^ 49)"
    by (simp only: f64_sub_def f64_neg.simps f64_add.simps f6)
  have c: "f64_ge (Fin 10) (Fin (3376011714670537 / 2 ^ 49))"
    by (simp add: f64_ge_def)
  show ?thesis
    by (simp only: main_ladder_def UiLadder.simps updateLevels.simps UiLadderLevel.simps c
        if_True s6 UiLadderLevel.update_convs)
qed

lemma main_first_quote:
  "Hoenix_GetQuote \<lparr>TakerFeeBps = Fin 5\<rparr> \<lparr>pp_InAmount = Fin 150, pp_AToB = True\<rparr> main_ladder
     = (Inr \<lparr>pq_InAmount = Fin 150, pq_OutAmount = Fin (3376011714670537 / 2 ^ 49)\<rparr>,
        main_ladder
          \<lparr>Asks := [\<lparr>Price = Fin 25, Quantity = Fin (2253487819542583 / 2 ^ 49)\<rparr>,
                     \<lparr>Price = Fin 30, Quantity = Fin 5\<rparr>,
                     \<lparr>Price = Fin 35, Quantity = Fin 2\<rparr>]\<rparr>)"
proof -
  define h where "h = \<lparr>TakerFeeBps = Fin 5\<rparr>"
  define p where "p = \<lparr>pp_InAmount = Fin 150, pp_AToB = True\<rparr>"
  have hp: "TakerFeeBps h = Fin 5" "pp_InAmount p = Fin 150" "pp_AToB p"
    by (simp_all add: h_def p_def)
  have w: "calculateBaseAmountFromQuoteBudget (Asks main_ladder)
             (Fin (2637509152086357 / 2 ^ 44)) = (Fin (3376011714670537 / 2 ^ 49), None)"
    by (simp only: calculateBase_alt walk_150 fst_conv snd_conv) (simp add: f64_gt_def)
  have g: "getBaseUnitsOutFromQuoteUnitsIn (Asks main_ladder)
             (Fin (2637509152086357 / 2 ^ 44)) = (Fin (3376011714670537 / 2 ^ 49), None)"
    by (simp only: getBaseUnitsOutFromQuoteUnitsIn_def w) simp
  have e: "getExpectedOutAmount main_ladder (if pp_AToB p then Bid else Ask) (TakerFeeBps h)
             (pp_InAmount p) = (Fin (3376011714670537 / 2 ^ 49), None)"
    by (simp only: hp if_True getExpectedOutAmount_def fee_5_budget_150 Let_def g) simp
  have u: "updateLadderLiquidity main_ladder Ask (Fin (3376011714670537 / 2 ^ 49))
      = main_ladder
          \<lparr>Asks := [\<lparr>Price = Fin 25, Quantity = Fin (2253487819542583 / 2 ^ 49)\<rparr>,
                     \<lparr>Price = Fin 30, Quantity = Fin 5\<rparr>,
                     \<lparr>Price = Fin 35, Quantity = Fin 2\<rparr>]\<rparr>"
    by (simp only: updateLadderLiquidity_def update_150) simp
  have "Hoenix_GetQuote h p main_ladder
      = (Inr \<lparr>pq_InAmount = Fin 150, pq_OutAmount = Fin (3376011714670537 / 2 ^ 49)\<rparr>,
        main_ladder
          \<lparr>Asks := [\<lparr>Price = Fin 25, Quantity = Fin (2253487819542583 / 2 ^ 49)\<rparr>,
                     \<lparr>Price = Fin 30, Quantity = Fin 5\<rparr>,
                     \<lparr>Price = Fin 35, Quantity = Fin 2\<rparr>]\<rparr>)"
    by (simp only: GetQuote_walk_ok [OF e] hp if_True u Let_def) (simp add: main_ladder_def)
  then show ?thesis by (simp only: h_def p_def)
qed





section \<open>The claims about the ladder\<close>

text \<open>
  Claim C2, as stated, at the pool: the quote \<open>(0, A to B)\<close> on \<open>(1000, 20000)\<close> is not
  rejected; it succeeds, with an output amount of \<open>2 ^ 64 - 1\<close>.
\<close>

theorem C2_counterexample:
  "LifinityLiquidity_GetQuote oobZero (NewLifinityLiquidity 1000 20000)
       \<lparr>qp_InAmount = 0, qp_AToB = True\<rparr>
     = (Inr \<lparr>q_InAmount = 0, q_OutAmount = 18446744073709551615, q_PriceImpactBP = 0\<rparr>,
        NewLifinityLiquidity 1000 20000)"
  by (rule example_quote_0)

text \<open>
  Claim C2, amended. For the ladder and for both directions, a quote whose input amount
  is zero or negative fails with the invalid-input error and leaves the ladder as it was;
  the same call on the ladder it returns gives the same error and the same ladder. (The
  pool has no such check: its input is unsigned and a zero amount is accepted.)
\<close>

theorem C2_ladder_rejects_nonpositive:
  assumes "f64_le (pp_InAmount params) (Fin 0)"
  shows "Hoenix_GetQuote h params ladder = (Inl ErrInputNotPositive, ladder)
       \<and> Hoenix_GetQuote h params (snd (Hoenix_GetQuote h params ladder))
           = (Inl ErrInputNotPositive, ladder)"
  using assms by (simp add: Hoenix_GetQuote_def getExpectedOutAmount_def)

text \<open>Claim C2, amended, at the amounts 0 and -3 on the ladder of \<^verbatim>\<open>main\<close>.\<close>

theorem C2_ladder_rejects_nonpositive_witness:
  "f64_le (pp_InAmount \<lparr>pp_InAmount = Fin 0, pp_AToB = True\<rparr>) (Fin 0)
   \<and> f64_le (pp_InAmount \<lparr>pp_InAmount = Fin (- 3), pp_AToB = False\<rparr>) (Fin 0)
   \<and> Hoenix_GetQuote \<lparr>TakerFeeBps = Fin 5\<rparr> \<lparr>pp_InAmount = Fin 0, pp_AToB = True\<rparr>
         main_ladder = (Inl ErrInputNotPositive, main_ladder)
   \<and> Hoenix_GetQuote \<lparr>TakerFeeBps = Fin 5\<rparr> \<lparr>pp_InAmount = Fin (- 3), pp_AToB = False\<rparr>
         main_ladder = (Inl ErrInputNotPositive, main_ladder)"
proof -
  have h1: "f64_le (pp_InAmount \<lparr>pp_InAmount = Fin 0, pp_AToB = True\<rparr>) (Fin 0)" by simp
  have h2: "f64_le (pp_InAmount \<lparr>pp_InAmount = Fin (- 3), pp_AToB = False\<rparr>) (Fin 0)" by simp
  show ?thesis
    using h1 h2
      C2_ladder_rejects_nonpositive [OF h1, of "\<lparr>TakerFeeBps = Fin 5\<rparr>" main_ladder]
      C2_ladder_rejects_nonpositive [OF h2, of "\<lparr>TakerFeeBps = Fin 5\<rparr>" main_ladder]
    by simp
qed

text \<open>
  Claim C3, as stated, at the quote \<open>(1000, A to B)\<close> on the ladder of \<^verbatim>\<open>main\<close> with no
  fee: the walk visits all three ask levels and leaves a budget of 530, the call reports
  insufficient liquidity, and the three ask levels keep their sizes 10, 5 and 2.
\<close>

theorem C3_counterexample:
  "walkedLeft \<lparr>TakerFeeBps = Fin 0\<rparr> \<lparr>pp_InAmount = Fin 1000, pp_AToB = True\<rparr> main_ladder
     = Fin 530
   \<and> Hoenix_GetQuote \<lparr>TakerFeeBps = Fin 0\<rparr> \<lparr>pp_InAmount = Fin 1000, pp_AToB = True\<rparr>
         main_ladder = (Inl ErrNotEnoughLiquidityRequested, main_ladder)
   \<and> map Quantity (Asks main_ladder) = [Fin 10, Fin 5, Fin 2]"
  by (simp add: quote_1000 walkedLeft_def applyTakerFee_zero fl_numeral walk_1000)
    (simp add: main_ladder_def)

text \<open>
  Claim C3, amended. For every ladder quote whose fee-adjusted budget remains strictly
  positive after the walk, the engine reports the insufficient-liquidity error and the
  ladder is left as it was: the walk reads copies of the levels, and the update runs
  only after a walk that succeeded.
\<close>

theorem C3_insufficient_liquidity_leaves_ladder:
  assumes "\<not> f64_le (pp_InAmount params) (Fin 0)"
    and "\<not> f64_le (applyTakerFee (pp_InAmount params) (TakerFeeBps h)) (Fin 0)"
    and "f64_gt (walkedLeft h params ladder) (Fin 0)"
  shows "Hoenix_GetQuote h params ladder = (Inl ErrNotEnoughLiquidityRequested, ladder)"
proof (cases "pp_AToB params")
  case True
  then show ?thesis
    using assms
    by (simp add: Hoenix_GetQuote_def getExpectedOutAmount_def walkedLeft_def Let_def
        getBaseUnitsOutFromQuoteUnitsIn_def calculateBase_alt)
next
  case False
  then show ?thesis
    using assms
    by (simp add: Hoenix_GetQuote_def getExpectedOutAmount_def walkedLeft_def Let_def
        getQuoteUnitsOutFromBaseUnitsIn_def calculateQuote_alt)
qed

text \<open>Claim C3, amended, at the quote \<open>(1000, A to B)\<close> on the ladder of \<^verbatim>\<open>main\<close>.\<close>

theorem C3_insufficient_liquidity_leaves_ladder_witness:
  "\<not> f64_le (pp_InAmount \<lparr>pp_InAmount = Fin 1000, pp_AToB = True\<rparr>) (Fin 0)
   \<and> \<not> f64_le (applyTakerFee (pp_InAmount \<lparr>pp_InAmount = Fin 1000, pp_AToB = True\<rparr>)
                 (TakerFeeBps \<lparr>TakerFeeBps = Fin 0\<rparr>)) (Fin 0)
   \<and> f64_gt (walkedLeft \<lparr>TakerFeeBps = Fin 0\<rparr> \<lparr>pp_InAmount = Fin 1000, pp_AToB = True\<rparr>
               main_ladder) (Fin 0)
   \<and> Hoenix_GetQuote \<lparr>TakerFeeBps = Fin 0\<rparr> \<lparr>pp_InAmount = Fin 1000, pp_AToB = True\<rparr>
         main_ladder = (Inl ErrNotEnoughLiquidityRequested, main_ladder)"
proof -
  have h1: "\<not> f64_le (pp_InAmount \<lparr>pp_InAmount = Fin 1000, pp_AToB = True\<rparr>) (Fin 0)"
    by simp
  have h2: "\<not> f64_le (applyTakerFee (pp_InAmount \<lparr>pp_InAmount = Fin 1000, pp_AToB = True\<rparr>)
                 (TakerFeeBps \<lparr>TakerFeeBps = Fin 0\<rparr>)) (Fin 0)"
    by (simp add: applyTakerFee_zero fl_numeral)
  have h3: "f64_gt (walkedLeft \<lparr>TakerFeeBps = Fin 0\<rparr>
               \<lparr>pp_InAmount = Fin 1000, pp_AToB = True\<rparr> main_ladder) (Fin 0)"
    by (simp add: walkedLeft_def applyTakerFee_zero fl_numeral walk_1000 f64_gt_def)
  show ?thesis
    using h1 h2 h3 C3_insufficient_liquidity_leaves_ladder [OF h1 h2 h3] by simp
qed

text \<open>
  Claim C6. The walk takes the levels in order. Where the notional \<open>price * size\<close> of a
  level covers the budget (for bids: where the size covers it), the output gains
  \<open>budget / price\<close> (for bids \<open>budget * price\<close>), the budget becomes zero and the walk
  stops, whatever levels follow. Otherwise the output gains the whole level, the budget
  loses its notional (for bids its size), and the walk goes on with the next level; this
  holds for every budget that is a float64 value (and, for bids, every size that is
  one). For the ladder of \<^verbatim>\<open>main\<close> with a fee of 5 bp the quote \<open>(150, A to B)\<close> takes
  about 5.997 of the 10 units of the level priced 25, leaves about 4.003 there, and
  leaves the two other ask levels as they were.
\<close>

theorem C6_greedy_walk:
  "(f64_ge (f64_mul (Price level) (Quantity level)) budget \<longrightarrow>
      baseWalk (level # levels) acc budget
        = (f64_add acc (f64_div budget (Price level)), Fin 0))
   \<and> (is_f64 budget \<and> \<not> f64_ge (f64_mul (Price level) (Quantity level)) budget \<longrightarrow>
      baseWalk (level # levels) acc budget
        = baseWalk levels (f64_add acc (Quantity level))
            (f64_sub budget (f64_mul (Price level) (Quantity level))))
   \<and> (f64_ge (Quantity level) budget \<longrightarrow>
      quoteWalk (level # levels) acc budget
        = (f64_add acc (f64_mul budget (Price level)), Fin 0))
   \<and> (is_f64 budget \<and> is_f64 (Quantity level) \<and> \<not> f64_ge (Quantity level) budget \<longrightarrow>
      quoteWalk (level # levels) acc budget
        = quoteWalk levels (f64_add acc (f64_mul (Quantity level) (Price level)))
            (f64_sub budget (Quantity level)))
   \<and> Hoenix_GetQuote \<lparr>TakerFeeBps = Fin 5\<rparr> \<lparr>pp_InAmount = Fin 150, pp_AToB = True\<rparr>
         main_ladder
       = (Inr \<lparr>pq_InAmount = Fin 150, pq_OutAmount = Fin (3376011714670537 / 2 ^ 49)\<rparr>,
          main_ladder
            \<lparr>Asks := [\<lparr>Price = Fin 25, Quantity = Fin (2253487819542583 / 2 ^ 49)\<rparr>,
                       \<lparr>Price = Fin 30, Quantity = Fin 5\<rparr>,
                       \<lparr>Price = Fin 35, Quantity = Fin 2\<rparr>]\<rparr>)
   \<and> (0::real) < 2253487819542583 / 2 ^ 49 \<and> (2253487819542583 / 2 ^ 49 :: real) < 10"
proof (intro conjI impI)
  show "Hoenix_GetQuote \<lparr>TakerFeeBps = Fin 5\<rparr> \<lparr>pp_InAmount = Fin 150, pp_AToB = True\<rparr>
         main_ladder
       = (Inr \<lparr>pq_InAmount = Fin 150, pq_OutAmount = Fin (3376011714670537 / 2 ^ 49)\<rparr>,
          main_ladder
            \<lparr>Asks := [\<lparr>Price = Fin 25, Quantity = Fin (2253487819542583 / 2 ^ 49)\<rparr>,
                       \<lparr>Price = Fin 30, Quantity = Fin 5\<rparr>,
                       \<lparr>Price = Fin 35, Quantity = Fin 2\<rparr>]\<rparr>)"
    by (rule main_first_quote)
qed (simp_all add: baseWalk_cover baseWalk_consume quoteWalk_cover quoteWalk_consume
    del: baseWalk.simps quoteWalk.simps is_f64.simps)

text \<open>
  Claim C6 on the first ask and the first bid of the ladder of \<^verbatim>\<open>main\<close>, with a budget the
  level covers and one it does not.
\<close>

theorem C6_greedy_walk_witness:
  "f64_ge (f64_mul (Fin 25) (Fin 10)) (Fin 150)
   \<and> baseWalk (Asks main_ladder) (Fin 0) (Fin 150) = (Fin 6, Fin 0)
   \<and> is_f64 (Fin 1000) \<and> \<not> f64_ge (f64_mul (Fin 25) (Fin 10)) (Fin 1000)
   \<and> baseWalk (Asks main_ladder) (Fin 0) (Fin 1000)
       = baseWalk (tl (Asks main_ladder)) (Fin 10) (Fin 750)
   \<and> f64_ge (Fin 10) (Fin 4)
   \<and> quoteWalk (Bids main_ladder) (Fin 0) (Fin 4) = (Fin 80, Fin 0)
   \<and> is_f64 (Fin 15) \<and> is_f64 (Fin 10) \<and> \<not> f64_ge (Fin 10) (Fin 15)
   \<and> quoteWalk (Bids main_ladder) (Fin 0) (Fin 15)
       = quoteWalk (tl (Bids main_ladder)) (Fin 200) (Fin 5)"
proof -
  define a1 where "a1 = \<lparr>Price = Fin 25, Quantity = Fin 10\<rparr>"
  define as where "as = [\<lparr>Price = Fin 30, Quantity = Fin 5\<rparr>, \<lparr>Price = Fin 35, Quantity = Fin 2\<rparr>]"
  define b1 where "b1 = \<lparr>Price = Fin 20, Quantity = Fin 10\<rparr>"
  define bs where "bs = [\<lparr>Price = Fin 15, Quantity = Fin 5\<rparr>, \<lparr>Price = Fin 10, Quantity = Fin 2\<rparr>]"
  have ml: "Asks main_ladder = a1 # as" "Bids main_ladder = b1 # bs"
    by (simp_all add: main_ladder_def a1_def as_def b1_def bs_def)
  have v: "is_f64 (Fin 1000)" "is_f64 (Fin 15)" "is_f64 (Fin 10)"
    by (simp_all add: is_f64_numeral del: is_f64.simps)
  have m: "f64_mul (Price a1) (Quantity a1) = Fin 250" by (simp add: a1_def fl_numeral)
  have c1: "f64_ge (f64_mul (Price a1) (Quantity a1)) (Fin 150)" by (simp add: m f64_ge_def)
  have c2: "is_f64 (Fin 1000) \<and> \<not> f64_ge (f64_mul (Price a1) (Quantity a1)) (Fin 1000)"
    using v(1) by (simp add: m f64_ge_def del: is_f64.simps)
  have c3: "f64_ge (Quantity b1) (Fin 4)" by (simp add: b1_def f64_ge_def)
  have c4: "is_f64 (Fin 15) \<and> is_f64 (Quantity b1) \<and> \<not> f64_ge (Quantity b1) (Fin 15)"
    using v(2,3) by (simp add: b1_def f64_ge_def del: is_f64.simps)
  have s1: "baseWalk (a1 # as) (Fin 0) (Fin 150)
      = (f64_add (Fin 0) (f64_div (Fin 150) (Price a1)), Fin 0)"
    using C6_greedy_walk [of a1 "Fin 150" as "Fin 0"] c1 by blast
  have s2: "baseWalk (a1 # as) (Fin 0) (Fin 1000)
      = baseWalk as (f64_add (Fin 0) (Quantity a1))
          (f64_sub (Fin 1000) (f64_mul (Price a1) (Quantity a1)))"
    using C6_greedy_walk [of a1 "Fin 1000" as "Fin 0"] c2 by blast
  have s3: "quoteWalk (b1 # bs) (Fin 0) (Fin 4)
      = (f64_add (Fin 0) (f64_mul (Fin 4) (Price b1)), Fin 0)"
    using C6_greedy_walk [of b1 "Fin 4" bs "Fin 0"] c3 by blast
  have s4: "quoteWalk (b1 # bs) (Fin 0) (Fin 15)
      = quoteWalk bs (f64_add (Fin 0) (f64_mul (Quantity b1) (Price b1)))
          (f64_sub (Fin 15) (Quantity b1))"
    using C6_greedy_walk [of b1 "Fin 15" bs "Fin 0"] c4 by blast
  have r1: "baseWalk (Asks main_ladder) (Fin 0) (Fin 150) = (Fin 6, Fin 0)"
    by (simp only: ml s1) (simp add: a1_def fl_numeral)
  have r2: "baseWalk (Asks main_ladder) (Fin 0) (Fin 1000)
       = baseWalk (tl (Asks main_ladder)) (Fin 10) (Fin 750)"
    by (simp only: ml s2 m list.sel) (simp add: a1_def fl_numeral f64_sub_def)
  have r3: "quoteWalk (Bids main_ladder) (Fin 0) (Fin 4) = (Fin 80, Fin 0)"
    by (simp only: ml s3) (simp add: b1_def fl_numeral)
  have r4: "quoteWalk (Bids main_ladder) (Fin 0) (Fin 15)
       = quoteWalk (tl (Bids main_ladder)) (Fin 200) (Fin 5)"
    by (simp only: ml s4 list.sel) (simp add: b1_def fl_numeral f64_sub_def)
  have "f64_ge (f64_mul (Fin 25) (Fin 10)) (Fin 150)" using c1 by (simp add: a1_def)
  moreover have "\<not> f64_ge (f64_mul (Fin 25) (Fin 10)) (Fin 1000)" using c2 by (simp add: a1_def)
  moreover have "f64_ge (Fin 10) (Fin 4)" "\<not> f64_ge (Fin 10) (Fin 15)"
    using c3 c4 by (simp_all add: b1_def)
  ultimately show ?thesis using v r1 r2 r3 r4 by (simp only: simp_thms)
qed

text \<open>
  Claim C7. The specification flags the ladder as exhausted when, after the update of a
  successful quote, a side of the ladder has become fully empty. The guard of \<open>GetQuote\<close>,
  which the source comments as the check that the ladder has sufficient liquidity and
  whose error reads that the updated ladder has no more asks or bids, tests the number of
  levels of each side, and \<open>updateLadderLiquidity\<close> sets sizes to zero without ever removing
  a level. At the quote \<open>(250, A to B)\<close> on a ladder with the single ask \<open>(25, 10)\<close> the
  update takes the whole size of the only ask, the ask side has no liquidity left, and the
  call returns the quote instead of the error. For every ladder, side and amount the
  update keeps the number of levels of both sides.
\<close>

theorem C7_depleted_side_returns_quote:
  "Hoenix_GetQuote \<lparr>TakerFeeBps = Fin 0\<rparr> \<lparr>pp_InAmount = Fin 250, pp_AToB = True\<rparr>
       \<lparr>Asks = [\<lparr>Price = Fin 25, Quantity = Fin 10\<rparr>],
        Bids = [\<lparr>Price = Fin 20, Quantity = Fin 10\<rparr>]\<rparr>
     = (Inr \<lparr>pq_InAmount = Fin 250, pq_OutAmount = Fin 10\<rparr>,
        \<lparr>Asks = [\<lparr>Price = Fin 25, Quantity = Fin 0\<rparr>],
         Bids = [\<lparr>Price = Fin 20, Quantity = Fin 10\<rparr>]\<rparr>)
   \<and> noLiquidity [\<lparr>Price = Fin 25, Quantity = Fin 0\<rparr>]
   \<and> length (Asks (updateLadderLiquidity ladder side amount)) = length (Asks ladder)
   \<and> length (Bids (updateLadderLiquidity ladder side amount)) = length (Bids ladder)"
  by (simp add: depleted_side_quote noLiquidity_def updateLadderLiquidity_lengths)






end
